theory Spec2Isabelle
  imports Main
begin

section \<open>Text: Python strings, decimal numerals and the two regular expressions\<close>

text \<open>
  A Python \<open>str\<close> is modelled as a \<open>string\<close> whose characters are the code points
  below 256 (Latin-1), one \<open>char\<close> per code point; text with code points from 256
  upwards is outside the model. The section sign of the rule references is the single
  character \<open>0xA7\<close>.

  CPython limits the conversion between \<open>int\<close> and decimal text: \<open>int(s)\<close>,
  \<open>str(n)\<close> and an f-string raise \<open>ValueError\<close> when more than
  \<open>sys.int_info.default_max_str_digits\<close> digits are involved. Leading zeros count, the
  sign does not.
\<close>

datatype error = SaveFailed | ValueError

definition max_str_digits :: nat where
  "max_str_digits = 4300"

definition is_digit :: "char \<Rightarrow> bool" where
  \<comment> \<open>\<open>\d\<close>: below code point 256 the only decimal digits are 0 to 9\<close>
  "is_digit c = (48 \<le> (of_char c :: nat) \<and> (of_char c :: nat) \<le> 57)"

definition is_space :: "char \<Rightarrow> bool" where
  \<comment> \<open>\<open>\s\<close> on \<open>str\<close> patterns: the characters for which \<open>str.isspace\<close> holds\<close>
  "is_space c = (let n = (of_char c :: nat) in
     (9 \<le> n \<and> n \<le> 13) \<or> (28 \<le> n \<and> n \<le> 32) \<or> n = 133 \<or> n = 160)"

definition section_sign :: char where
  "section_sign = CHR 0xA7"

definition lower_char :: "char \<Rightarrow> char" where
  \<comment> \<open>\<open>str.lower\<close> on one code point below 256\<close>
  "lower_char c = (let n = (of_char c :: nat) in
     if (65 \<le> n \<and> n \<le> 90) \<or> (192 \<le> n \<and> n \<le> 222 \<and> n \<noteq> 215)
     then char_of (n + 32) else c)"

definition lower :: "string \<Rightarrow> string" where
  "lower s = map lower_char s"

definition digit_char :: "nat \<Rightarrow> char" where
  "digit_char d = char_of (48 + d)"

fun str_nat :: "nat \<Rightarrow> string" where
  "str_nat n = (if n < 10 then [digit_char n] else str_nat (n div 10) @ [digit_char (n mod 10)])"

declare str_nat.simps [simp del]

definition str_int :: "int \<Rightarrow> error + string" where
  \<comment> \<open>what \<open>str\<close> and an f-string render for an \<open>int\<close>\<close>
  "str_int i =
     (let digits = str_nat (nat \<bar>i\<bar>) in
      if max_str_digits < length digits then Inl ValueError
      else Inr (if i < 0 then CHR ''-'' # digits else digits))"

definition f_string :: "int \<Rightarrow> string \<Rightarrow> error + string" where
  \<comment> \<open>the f-string of an \<open>int\<close> followed by a literal suffix\<close>
  "f_string n suffix = (case str_int n of Inl e \<Rightarrow> Inl e | Inr t \<Rightarrow> Inr (t @ suffix))"

definition digit_val :: "char \<Rightarrow> nat" where
  "digit_val c = of_char c - 48"

definition digits_value :: "string \<Rightarrow> int" where
  \<comment> \<open>the number a run of decimal digits denotes\<close>
  "digits_value ds = int (foldl (\<lambda>n c. 10 * n + digit_val c) 0 ds)"

definition int_of_digits :: "string \<Rightarrow> error + int" where
  \<comment> \<open>\<open>int(amount)\<close> on a string the pattern \<open>\d+\<close> has matched\<close>
  "int_of_digits ds =
     (if max_str_digits < length ds then Inl ValueError else Inr (digits_value ds))"

definition strip_final_newline :: "string \<Rightarrow> string" where
  \<comment> \<open>\<open>$\<close> without MULTILINE matches at the end and before a newline that ends the string\<close>
  "strip_final_newline s = (if s \<noteq> [] \<and> last s = CHR 0x0A then butlast s else s)"

definition duration_units :: "string list" where
  "duration_units = [''mo'', ''w'', ''d'', ''h'', ''m'']"

definition match_duration :: "string \<Rightarrow> (string \<times> string) option" where
  \<comment> \<open>\<open>re.match(r'^(\d+)(mo|[wdhm])$', s)\<close> and its two groups\<close>
  "match_duration s =
     (let amount = takeWhile is_digit s;
          unit = strip_final_newline (dropWhile is_digit s)
      in if amount \<noteq> [] \<and> unit \<in> set duration_units then Some (amount, unit) else None)"

section \<open>utils.py: durations\<close>

text \<open>
  A result \<open>Inl e\<close> is the exception \<open>e\<close> leaving the function; \<open>Inr\<close> carries
  the value returned.
\<close>

definition parse_time_duration :: "string \<Rightarrow> error + int option" where
  "parse_time_duration duration_str =
     (if lower duration_str = ''indefinite'' then Inr None
      else case match_duration (lower duration_str) of
        None \<Rightarrow> Inr None
      | Some (amount_str, unit) \<Rightarrow>
          (case int_of_digits amount_str of
             Inl e \<Rightarrow> Inl e
           | Inr amount \<Rightarrow>
               if unit = ''mo'' then Inr (Some (amount * 30 * 24 * 3600))
               else if unit = ''w'' then Inr (Some (amount * 7 * 24 * 3600))
               else if unit = ''d'' then Inr (Some (amount * 24 * 3600))
               else if unit = ''h'' then Inr (Some (amount * 3600))
               else if unit = ''m'' then Inr (Some (amount * 60))
               else Inr None))"

definition format_duration :: "int option \<Rightarrow> error + string" where
  "format_duration seconds_opt =
     (case seconds_opt of
        None \<Rightarrow> Inr ''indefinite''
      | Some seconds \<Rightarrow>
          if seconds < 60 then f_string seconds ''s''
          else if seconds < 3600 then f_string (seconds div 60) ''m''
          else if seconds < 86400 then f_string (seconds div 3600) ''h''
          else if seconds < 604800 then f_string (seconds div 86400) ''d''
          else if seconds < 2592000 then f_string (seconds div 604800) ''w''
          else f_string (seconds div 2592000) ''mo'')"

definition validate_punishment_duration :: "string \<Rightarrow> error + bool" where
  "validate_punishment_duration duration_str =
     (if lower duration_str = ''indefinite'' then Inr True
      else case parse_time_duration duration_str of
        Inl e \<Rightarrow> Inl e
      | Inr seconds \<Rightarrow> Inr (seconds \<noteq> None))"

section \<open>data_manager.py: the sanction log file\<close>

text \<open>
  One entry of \<open>logs.json\<close>. Keys that \<open>create_log\<close> always writes are plain
  fields; keys that hold \<open>null\<close> or appear only later (\<open>updated_at\<close>,
  \<open>completed_at\<close>) are options. The file is the state: every operation loads it, and a
  mutating operation writes the whole document back through \<open>save_json\<close>.
\<close>

record log_entry =
  entry_id :: int
  log_number :: int
  guild_id :: int
  user_id :: int
  rule_violation :: string
  description :: string
  punishment :: string
  release_time :: "int option"
  punishment_start :: int
  moderator_id :: "int option"
  retracted :: bool
  message_id :: "int option"
  created_at :: int
  updated_at :: "int option"
  completed_at :: "int option"

record logs_file =
  logs :: "log_entry list"
  next_log_id :: "int option"

definition save_json :: "bool \<Rightarrow> 'a \<Rightarrow> 'a \<Rightarrow> bool \<times> 'a" where
  \<comment> \<open>\<open>write_ok\<close> says whether the write and the rename succeed; the result is the
      return value and the content of the file afterwards\<close>
  "save_json write_ok data file = (if write_ok then (True, data) else (False, file))"

definition max_default :: "int list \<Rightarrow> int \<Rightarrow> int" where
  \<comment> \<open>\<open>max(xs, default=d)\<close>\<close>
  "max_default xs d = (if xs = [] then d else Max (set xs))"

definition or_default :: "int option \<Rightarrow> int \<Rightarrow> int" where
  \<comment> \<open>\<open>x or d\<close> for an optional integer: \<open>None\<close> and \<open>0\<close> are both falsy\<close>
  "or_default x d = (case x of None \<Rightarrow> d | Some v \<Rightarrow> if v = 0 then d else v)"

definition get_default :: "('k \<rightharpoonup> 'v) \<Rightarrow> 'k \<Rightarrow> 'v \<Rightarrow> 'v" where
  \<comment> \<open>\<open>dict.get(key, default)\<close>\<close>
  "get_default m k d = (case m k of None \<Rightarrow> d | Some v \<Rightarrow> v)"

fun update_first :: "('a \<Rightarrow> bool) \<Rightarrow> ('a \<Rightarrow> 'a) \<Rightarrow> 'a list \<Rightarrow> 'a list option" where
  \<comment> \<open>the loop \<open>for x in xs: if P(x): mutate x; return save\<close>: the first match is
      changed, \<open>None\<close> when the loop falls through\<close>
  "update_first P f [] = None"
| "update_first P f (x # xs) =
     (if P x then Some (f x # xs) else map_option ((#) x) (update_first P f xs))"

definition create_log ::
  "bool \<Rightarrow> int \<Rightarrow> logs_file \<Rightarrow> int \<Rightarrow> int \<Rightarrow> string \<Rightarrow> string \<Rightarrow> string \<Rightarrow> int option \<Rightarrow>
   int option \<Rightarrow> int option \<Rightarrow> (error + int) \<times> logs_file" where
  "create_log write_ok now_ts file guild user rule descr pun release start moderator =
     (let start' = (case start of None \<Rightarrow> now_ts | Some t \<Rightarrow> t);
          guild_logs = filter (\<lambda>log. guild_id log = guild \<and> \<not> retracted log) (logs file);
          number = max_default (map log_number guild_logs) 0 + 1;
          next_id = (case next_log_id file of None \<Rightarrow> 1 | Some i \<Rightarrow> i);
          entry = \<lparr> entry_id = next_id, log_number = number, guild_id = guild,
                    user_id = user, rule_violation = rule, description = descr,
                    punishment = pun, release_time = release, punishment_start = start',
                    moderator_id = moderator, retracted = False, message_id = None,
                    created_at = now_ts, updated_at = None, completed_at = None \<rparr>;
          data = file \<lparr> logs := logs file @ [entry], next_log_id := Some (next_id + 1) \<rparr>
      in case save_json write_ok data file of
           (True, file') \<Rightarrow> (Inr number, file')
         | (False, file') \<Rightarrow> (Inl SaveFailed, file'))"

definition get_log ::
  "logs_file \<Rightarrow> int \<Rightarrow> int \<Rightarrow>
   (int \<times> string \<times> string \<times> string \<times> int option \<times> int \<times> int option \<times> int \<times> bool \<times> int option) option"
  where
  "get_log file number guild =
     (case find (\<lambda>log. log_number log = number \<and> guild_id log = guild) (logs file) of
        None \<Rightarrow> None
      | Some log \<Rightarrow> Some (user_id log, rule_violation log, description log, punishment log,
                          message_id log, guild_id log, release_time log, punishment_start log,
                          retracted log, moderator_id log))"


definition delete_log :: "bool \<Rightarrow> logs_file \<Rightarrow> int \<Rightarrow> int \<Rightarrow> bool \<times> logs_file" where
  "delete_log write_ok file number guild =
     (let original_count = length (logs file);
          data = file \<lparr> logs := filter (\<lambda>log. \<not> (log_number log = number \<and> guild_id log = guild))
                                    (logs file) \<rparr>
      in if length (logs data) < original_count then save_json write_ok data file
         else (False, file))"

definition retract_log :: "bool \<Rightarrow> int \<Rightarrow> logs_file \<Rightarrow> int \<Rightarrow> int \<Rightarrow> bool \<Rightarrow> bool \<times> logs_file" where
  "retract_log write_ok now_ts file number guild retract =
     (case update_first (\<lambda>log. log_number log = number \<and> guild_id log = guild)
             (\<lambda>log. log \<lparr> retracted := retract,
                           release_time := (if retract then None else release_time log),
                           updated_at := Some now_ts \<rparr>)
             (logs file) of
        None \<Rightarrow> (False, file)
      | Some logs' \<Rightarrow> save_json write_ok (file \<lparr> logs := logs' \<rparr>) file)"

definition get_punishment_count :: "logs_file \<Rightarrow> int \<Rightarrow> int \<Rightarrow> int" where
  "get_punishment_count file user guild =
     int (length (filter (\<lambda>log. user_id log = user \<and> guild_id log = guild \<and> \<not> retracted log)
                         (logs file)))"

definition get_active_punishments :: "logs_file \<Rightarrow> int option \<Rightarrow> (int \<times> int \<times> int \<times> int) list" where
  "get_active_punishments file guild =
     concat (map (\<lambda>log. case release_time log of
                    None \<Rightarrow> []
                  | Some r \<Rightarrow>
                      if \<not> retracted log \<and> (guild = None \<or> guild = Some (guild_id log))
                      then [(user_id log, guild_id log, r, punishment_start log)] else [])
                 (logs file))"

definition get_expired_punishments :: "int \<Rightarrow> logs_file \<Rightarrow> int option \<Rightarrow> (int \<times> int \<times> int) list" where
  "get_expired_punishments now_ts file guild =
     concat (map (\<lambda>log. case release_time log of
                    None \<Rightarrow> []
                  | Some r \<Rightarrow>
                      if r \<le> now_ts \<and> \<not> retracted log \<and> (guild = None \<or> guild = Some (guild_id log))
                      then [(user_id log, guild_id log, r)] else [])
                 (logs file))"

definition mark_punishment_completed ::
  "bool \<Rightarrow> int \<Rightarrow> logs_file \<Rightarrow> int \<Rightarrow> int \<Rightarrow> int \<Rightarrow> bool \<times> logs_file" where
  "mark_punishment_completed write_ok now_ts file user guild release =
     (case update_first
             (\<lambda>log. user_id log = user \<and> guild_id log = guild \<and> release_time log = Some release)
             (\<lambda>log. log \<lparr> release_time := None, completed_at := Some now_ts \<rparr>)
             (logs file) of
        None \<Rightarrow> (False, file)
      | Some logs' \<Rightarrow> save_json write_ok (file \<lparr> logs := logs' \<rparr>) file)"

section \<open>data_manager.py: temporary bans\<close>

record temp_ban =
  ban_guild_id :: int
  ban_user_id :: int
  ban_moderator_id :: int
  ban_log_number :: int
  ban_duration :: string
  unban_time :: "int option"
  ban_reason :: string
  banned_at :: int
  unbanned :: bool
  unbanned_at :: "int option"
  cancelled_early :: bool
  cancelled_by :: "int option"

type_synonym temp_bans_file = "temp_ban list"

definition mark_temp_ban_completed ::
  "bool \<Rightarrow> int \<Rightarrow> temp_bans_file \<Rightarrow> int \<Rightarrow> int \<Rightarrow> int \<Rightarrow> bool \<times> temp_bans_file" where
  "mark_temp_ban_completed write_ok now_ts file user guild unban =
     (case update_first
             (\<lambda>ban. ban_user_id ban = user \<and> ban_guild_id ban = guild \<and>
                    unban_time ban = Some unban \<and> \<not> unbanned ban)
             (\<lambda>ban. ban \<lparr> unbanned := True, unbanned_at := Some now_ts \<rparr>)
             file of
        None \<Rightarrow> (False, file)
      | Some bans' \<Rightarrow> save_json write_ok bans' file)"

section \<open>data_manager.py: punishment configuration and the policy functions\<close>

text \<open>
  \<open>punishment_config.json\<close> is written by hand; only the keys the code reads are
  modelled. \<open>None\<close> for the whole configuration is the empty document (also what
  \<open>load_json\<close> returns for a missing or unreadable file); a key that is absent is
  \<open>None\<close>.
\<close>

record temp_ban_rule =
  rule_description :: "string option"
  rule_duration :: "string option"
  rule_trigger :: "string option"

record punishment_config =
  base_times :: "(string \<rightharpoonup> string) option"
  per_prior_offense :: "(string \<rightharpoonup> string) option"
  temp_ban_rules :: "(string \<rightharpoonup> temp_ban_rule) option"
  temp_ban_channel_id :: "string option"

record suggestion =
  rule_key :: string
  suggested_description :: "string option"
  suggested_duration :: "string option"
  trigger :: string
  prior_offenses :: "int option"

definition match_rule_here :: "string \<Rightarrow> string option" where
  \<comment> \<open>the pattern \<open>\<section>+\s*(\d+)\<close> anchored at the head of the string; every
      repetition is followed by a character outside its class, so the greedy match is the
      only one\<close>
  "match_rule_here s =
     (let after_signs = dropWhile (\<lambda>c. c = section_sign) s;
          digits = takeWhile is_digit (dropWhile is_space after_signs)
      in if length after_signs < length s \<and> digits \<noteq> [] then Some digits else None)"

fun first_rule_match :: "string \<Rightarrow> string option" where
  \<comment> \<open>the first element of \<open>re.findall\<close>: the leftmost position where the pattern matches\<close>
  "first_rule_match [] = None"
| "first_rule_match (c # cs) =
     (case match_rule_here (c # cs) of
        Some digits \<Rightarrow> Some digits
      | None \<Rightarrow> first_rule_match cs)"

definition extract_rule_number :: "string \<Rightarrow> string option" where
  "extract_rule_number violation = first_rule_match violation"

definition calculate_automatic_punishment ::
  "punishment_config option \<Rightarrow> logs_file \<Rightarrow> int \<Rightarrow> int \<Rightarrow> string \<Rightarrow> error + string" where
  "calculate_automatic_punishment config file user guild violation =
     (case config of
        None \<Rightarrow> Inr ''2h''
      | Some c \<Rightarrow>
          (let base = (case base_times c of None \<Rightarrow> Map.empty | Some m \<Rightarrow> m);
               per_prior = (case per_prior_offense c of None \<Rightarrow> Map.empty | Some m \<Rightarrow> m);
               rule_num = (case extract_rule_number violation of
                             None \<Rightarrow> ''default'' | Some r \<Rightarrow> r);
               base_time_str = get_default base rule_num (get_default base ''default'' ''2h'')
           in if lower base_time_str = ''indefinite'' then Inr ''indefinite''
              else
                (let per_prior_str =
                       get_default per_prior rule_num (get_default per_prior ''default'' ''2h'');
                     prior_count = get_punishment_count file user guild
                 in case parse_time_duration base_time_str of
                      Inl e \<Rightarrow> Inl e
                    | Inr base_parsed \<Rightarrow>
                        (case parse_time_duration per_prior_str of
                           Inl e \<Rightarrow> Inl e
                         | Inr per_prior_parsed \<Rightarrow>
                             (let base_seconds = or_default base_parsed 7200;
                                  per_prior_seconds = or_default per_prior_parsed 0;
                                  total_seconds = base_seconds + prior_count * per_prior_seconds
                              in format_duration (Some total_seconds))))))"

definition get_temp_ban_rules :: "punishment_config option \<Rightarrow> (string \<rightharpoonup> temp_ban_rule)" where
  "get_temp_ban_rules config =
     (case config of
        None \<Rightarrow> Map.empty
      | Some c \<Rightarrow> (case temp_ban_rules c of None \<Rightarrow> Map.empty | Some m \<Rightarrow> m))"

definition check_temp_ban_applicable ::
  "punishment_config option \<Rightarrow> logs_file \<Rightarrow> string \<Rightarrow> int \<Rightarrow> int \<Rightarrow> suggestion option" where
  "check_temp_ban_applicable config file violation user guild =
     (let rules = get_temp_ban_rules config in
      case extract_rule_number violation of
        None \<Rightarrow> None
      | Some rule_num \<Rightarrow>
          (case rules rule_num of
             Some rule_info \<Rightarrow>
               Some \<lparr> rule_key = rule_num,
                      suggested_description =
                        Some (case rule_description rule_info of
                                None \<Rightarrow> [section_sign] @ rule_num @ '' violation''
                              | Some d \<Rightarrow> d),
                      suggested_duration =
                        Some (case rule_duration rule_info of None \<Rightarrow> ''6mo'' | Some d \<Rightarrow> d),
                      trigger =
                        (case rule_trigger rule_info of None \<Rightarrow> ''first_offense'' | Some t \<Rightarrow> t),
                      prior_offenses = None \<rparr>
           | None \<Rightarrow>
               (let prior_count = get_punishment_count file user guild in
                if prior_count > 0 then
                  (let continued_key = rule_num @ ''_continued'' in
                   case rules continued_key of
                     Some info \<Rightarrow>
                       Some \<lparr> rule_key = continued_key,
                              suggested_description = rule_description info,
                              suggested_duration = rule_duration info,
                              trigger = ''continued'',
                              prior_offenses = Some prior_count \<rparr>
                   | None \<Rightarrow> None)
                else None)))"

section \<open>events.py: the reversal timers\<close>

text \<open>
  The event loop's tasks are kept in creation order; a handle is the position of its task.
  A task is \<open>Pending\<close> from \<open>create_task\<close> until it is cancelled or its body has run.
  \<open>scheduled_removals\<close> and \<open>scheduled_unbans\<close> are the two module-level dictionaries
  from user id to handle.
\<close>

datatype task_state = Pending | Cancelled | Finished

datatype task_kind = RoleRemoval | TempUnban int

record timer_task =
  task_kind :: task_kind
  task_guild :: int
  task_user :: int
  task_time :: int
  task_state :: task_state

record scheduler =
  loop_tasks :: "timer_task list"
  scheduled_removals :: "int \<rightharpoonup> nat"
  scheduled_unbans :: "int \<rightharpoonup> nat"

definition cancel_task :: "nat \<Rightarrow> timer_task list \<Rightarrow> timer_task list" where
  \<comment> \<open>\<open>task.cancel()\<close>: a task that has finished or was cancelled stays as it is\<close>
  "cancel_task h ts =
     (if h < length ts \<and> task_state (ts ! h) = Pending
      then ts [h := (ts ! h) \<lparr> task_state := Cancelled \<rparr>] else ts)"


definition schedule_role_removal :: "scheduler \<Rightarrow> int \<Rightarrow> int \<Rightarrow> int \<Rightarrow> scheduler" where
  "schedule_role_removal sch guild user release =
     (let task = \<lparr> task_kind = RoleRemoval, task_guild = guild, task_user = user,
                   task_time = release, task_state = Pending \<rparr>
      in sch \<lparr> loop_tasks := loop_tasks sch @ [task],
               scheduled_removals := (scheduled_removals sch) (user \<mapsto> length (loop_tasks sch)) \<rparr>)"

definition cancel_scheduled_removal :: "scheduler \<Rightarrow> int \<Rightarrow> scheduler" where
  "cancel_scheduled_removal sch user =
     (case scheduled_removals sch user of
        None \<Rightarrow> sch
      | Some h \<Rightarrow> sch \<lparr> loop_tasks := cancel_task h (loop_tasks sch),
                        scheduled_removals := (scheduled_removals sch) (user := None) \<rparr>)"

definition schedule_temp_unban :: "scheduler \<Rightarrow> int \<Rightarrow> int \<Rightarrow> int \<Rightarrow> int \<Rightarrow> scheduler" where
  "schedule_temp_unban sch guild user unban number =
     (let tasks = (case scheduled_unbans sch user of
                     None \<Rightarrow> loop_tasks sch
                   | Some h \<Rightarrow> cancel_task h (loop_tasks sch));
          task = \<lparr> task_kind = TempUnban number, task_guild = guild, task_user = user,
                   task_time = unban, task_state = Pending \<rparr>
      in sch \<lparr> loop_tasks := tasks @ [task],
               scheduled_unbans := (scheduled_unbans sch) (user \<mapsto> length tasks) \<rparr>)"

definition cancel_temp_unban :: "scheduler \<Rightarrow> int \<Rightarrow> bool \<times> scheduler" where
  "cancel_temp_unban sch user =
     (case scheduled_unbans sch user of
        None \<Rightarrow> (False, sch)
      | Some h \<Rightarrow> (True, sch \<lparr> loop_tasks := cancel_task h (loop_tasks sch),
                               scheduled_unbans := (scheduled_unbans sch) (user := None) \<rparr>))"

definition live_removals :: "scheduler \<Rightarrow> int \<Rightarrow> timer_task list" where
  \<comment> \<open>the role-removal timers of a user that will still run their body\<close>
  "live_removals sch user =
     filter (\<lambda>t. task_kind t = RoleRemoval \<and> task_user t = user \<and> task_state t = Pending)
            (loop_tasks sch)"

definition is_unban :: "timer_task \<Rightarrow> bool" where
  "is_unban t = (case task_kind t of RoleRemoval \<Rightarrow> False | TempUnban n \<Rightarrow> True)"

definition live_unbans :: "scheduler \<Rightarrow> int \<Rightarrow> timer_task list" where
  "live_unbans sch user =
     filter (\<lambda>t. is_unban t \<and> task_user t = user \<and> task_state t = Pending) (loop_tasks sch)"

section \<open>commands.py: reduce\<close>



section \<open>Sample stores\<close>

text \<open>
  \<open>init_logs_file\<close> is the document \<open>init_data_storage\<close> writes. \<open>sample_log\<close> is
  the entry \<open>create_log\<close> appends at time 100 for a two-hour sanction under rule 2; the
  stores below are used as concrete inputs.
\<close>

definition init_logs_file :: logs_file where
  "init_logs_file = \<lparr> logs = [], next_log_id = Some 1 \<rparr>"

definition sample_log :: "int \<Rightarrow> int \<Rightarrow> int \<Rightarrow> int option \<Rightarrow> log_entry" where
  "sample_log number guild user release =
     \<lparr> entry_id = number, log_number = number, guild_id = guild, user_id = user,
       rule_violation = section_sign # ''2'', description = ''spam'', punishment = ''2h'',
       release_time = release, punishment_start = 100, moderator_id = Some 9,
       retracted = False, message_id = None, created_at = 100, updated_at = None,
       completed_at = None \<rparr>"

definition two_same :: logs_file where
  "two_same = \<lparr> logs = [sample_log 1 7 42 (Some 7300), sample_log 2 7 42 (Some 7300)], next_log_id = Some 3 \<rparr>"

definition one_log :: logs_file where
  "one_log = \<lparr> logs = [sample_log 1 7 42 (Some 7300)], next_log_id = Some 2 \<rparr>"

definition two_logs :: logs_file where
  "two_logs = \<lparr> logs = [sample_log 1 7 42 (Some 7300), sample_log 2 7 43 (Some 7300)],
                next_log_id = Some 3 \<rparr>"

definition renumbered_logs :: logs_file where
  \<comment> \<open>entry 1 of user 42 is retracted, then user 43 is sanctioned: \<open>create_log\<close> numbers
      the new entry 1 as well\<close>
  "renumbered_logs =
     snd (create_log True 200 (snd (retract_log True 150 one_log 1 7 True)) 7 43
            (section_sign # ''2'') ''flood'' ''1h'' (Some 3800) (Some 200) (Some 9))"

definition sample_ban :: "int \<Rightarrow> int \<Rightarrow> int \<Rightarrow> temp_ban" where
  "sample_ban guild user unban =
     \<lparr> ban_guild_id = guild, ban_user_id = user, ban_moderator_id = 9, ban_log_number = 1,
       ban_duration = ''1w'', unban_time = Some unban, ban_reason = ''spam'', banned_at = 100,
       unbanned = False, unbanned_at = None, cancelled_early = False, cancelled_by = None \<rparr>"

definition sample_config :: punishment_config where
  "sample_config =
     \<lparr> base_times = Some [''default'' \<mapsto> ''2h'', ''5'' \<mapsto> ''indefinite''],
       per_prior_offense = Some [''default'' \<mapsto> ''2h''],
       temp_ban_rules = Some
         [''8'' \<mapsto> \<lparr> rule_description = Some ''doxxing'', rule_duration = Some ''6mo'',
                       rule_trigger = None \<rparr>,
          ''8_continued'' \<mapsto> \<lparr> rule_description = Some ''doxxing again'',
                                 rule_duration = Some ''12mo'', rule_trigger = None \<rparr>,
          ''3_continued'' \<mapsto> \<lparr> rule_description = Some ''repeated spam'',
                                 rule_duration = Some ''1mo'', rule_trigger = None \<rparr>],
       temp_ban_channel_id = None \<rparr>"

definition init_scheduler :: scheduler where
  "init_scheduler = \<lparr> loop_tasks = [], scheduled_removals = Map.empty, scheduled_unbans = Map.empty \<rparr>"

definition unban_handles_ok :: "scheduler \<Rightarrow> bool" where
  "unban_handles_ok sch =
     list_all (\<lambda>i. is_unban (loop_tasks sch ! i) \<and> task_state (loop_tasks sch ! i) = Pending \<longrightarrow>
                    scheduled_unbans sch (task_user (loop_tasks sch ! i)) = Some i)
              [0 ..< length (loop_tasks sch)]"

section \<open>Decimal numerals and the duration pattern\<close>

lemma is_digit_digit_char: "d < 10 \<Longrightarrow> is_digit (digit_char d)"
  by (simp add: is_digit_def digit_char_def)

lemma digit_val_digit_char: "d < 10 \<Longrightarrow> digit_val (digit_char d) = d"
  by (simp add: digit_val_def digit_char_def)

lemma str_nat_digits: "list_all is_digit (str_nat n)"
proof (induction n rule: str_nat.induct)
  case (1 n)
  show ?case
  proof (cases "n < 10")
    case True
    then show ?thesis by (subst str_nat.simps) (simp add: is_digit_digit_char)
  next
    case False
    with 1 show ?thesis by (subst str_nat.simps) (simp add: is_digit_digit_char)
  qed
qed

lemma str_nat_nonempty: "str_nat n \<noteq> []"
  by (subst str_nat.simps) simp

lemma foldl_digits_str_nat: "foldl (\<lambda>n c. 10 * n + digit_val c) 0 (str_nat n) = n"
proof (induction n rule: str_nat.induct)
  case (1 n)
  show ?case
  proof (cases "n < 10")
    case True
    then show ?thesis by (subst str_nat.simps) (simp add: digit_val_digit_char)
  next
    case False
    with 1 show ?thesis by (subst str_nat.simps) (simp add: digit_val_digit_char)
  qed
qed

lemma digits_value_str_nat: "digits_value (str_nat n) = int n"
  by (simp add: digits_value_def foldl_digits_str_nat)

lemma length_str_nat_le: "0 < k \<Longrightarrow> length (str_nat n) \<le> k \<longleftrightarrow> n < 10 ^ k"
proof (induction n arbitrary: k rule: str_nat.induct)
  case (1 n)
  show ?case
  proof (cases "n < 10")
    case True
    have "(10::nat) ^ 1 \<le> 10 ^ k" using "1.prems" by (intro power_increasing) simp_all
    with True have "n < 10 ^ k" by simp
    moreover have "length (str_nat n) = 1" using True by (subst str_nat.simps) simp
    ultimately show ?thesis using "1.prems" by simp
  next
    case False
    have len: "length (str_nat n) = Suc (length (str_nat (n div 10)))"
      using False by (subst str_nat.simps) simp
    show ?thesis
    proof (cases k)
      case 0
      with "1.prems" show ?thesis by simp
    next
      case (Suc j)
      show ?thesis
      proof (cases "j = 0")
        case True
        with Suc False len show ?thesis by (simp add: str_nat_nonempty)
      next
        case j: False
        from "1.IH" [OF False, of j] j
        have "length (str_nat (n div 10)) \<le> j \<longleftrightarrow> n div 10 < 10 ^ j" by simp
        moreover have "n div 10 < 10 ^ j \<longleftrightarrow> n < 10 ^ Suc j"
          by (simp add: div_less_iff_less_mult mult.commute)
        ultimately show ?thesis using Suc len by simp
      qed
    qed
  qed
qed

lemma two_digits_allowed: "2 \<le> max_str_digits"
  by (simp add: max_str_digits_def)

lemma small_amount_allowed:
  assumes "n < 100"
  shows "length (str_nat n) \<le> max_str_digits"
proof -
  have "(10::nat) ^ 2 \<le> 10 ^ max_str_digits"
    using two_digits_allowed by (intro power_increasing) simp_all
  with assms have "n < 10 ^ max_str_digits" by simp
  with two_digits_allowed show ?thesis by (simp add: length_str_nat_le)
qed

lemma str_int_nonneg:
  "0 \<le> q \<Longrightarrow>
   str_int q = (if length (str_nat (nat q)) \<le> max_str_digits
                then Inr (str_nat (nat q)) else Inl ValueError)"
  by (simp add: str_int_def Let_def not_less)

lemma str_int_limit:
  "str_int q = Inl ValueError \<longleftrightarrow> 10 ^ max_str_digits \<le> \<bar>q\<bar>"
proof -
  have "0 < max_str_digits" using two_digits_allowed by simp
  from length_str_nat_le [OF this, of "nat \<bar>q\<bar>"]
  have "max_str_digits < length (str_nat (nat \<bar>q\<bar>)) \<longleftrightarrow> 10 ^ max_str_digits \<le> nat \<bar>q\<bar>"
    by auto
  also have "\<dots> \<longleftrightarrow> (10::int) ^ max_str_digits \<le> \<bar>q\<bar>"
  proof -
    have "int (10 ^ max_str_digits) = 10 ^ max_str_digits" by simp
    then show ?thesis by (simp add: nat_le_iff le_nat_iff)
  qed
  finally show ?thesis by (simp add: str_int_def Let_def)
qed

lemma lower_char_digit: "is_digit c \<Longrightarrow> lower_char c = c"
  by (auto simp: is_digit_def lower_char_def Let_def)

lemma lower_digits: "list_all is_digit ds \<Longrightarrow> lower ds = ds"
  by (induction ds) (simp_all add: lower_def lower_char_digit)

lemma lower_append: "lower (a @ b) = lower a @ lower b"
  by (simp add: lower_def)

lemma takeWhile_digits_append:
  "list_all is_digit ds \<Longrightarrow> u \<noteq> [] \<Longrightarrow> \<not> is_digit (hd u) \<Longrightarrow> takeWhile is_digit (ds @ u) = ds"
  by (induction ds) (auto simp: neq_Nil_conv)

lemma dropWhile_digits_append:
  "list_all is_digit ds \<Longrightarrow> u \<noteq> [] \<Longrightarrow> \<not> is_digit (hd u) \<Longrightarrow> dropWhile is_digit (ds @ u) = u"
  by (induction ds) (auto simp: neq_Nil_conv)

lemma unit_facts:
  assumes "u \<in> set duration_units"
  shows "u \<noteq> []" and "\<not> is_digit (hd u)" and "lower u = u"
    and "strip_final_newline u = u" and "strip_final_newline (u @ [CHR 0x0A]) = u"
  using assms
  by (auto simp: duration_units_def is_digit_def lower_def lower_char_def strip_final_newline_def)

lemma match_duration_digits_unit:
  assumes "ds \<noteq> []" "list_all is_digit ds" "u \<in> set duration_units"
  shows "match_duration (ds @ u) = Some (ds, u)"
    and "match_duration (ds @ u @ [CHR 0x0A]) = Some (ds, u)"
proof -
  from assms(3) have u: "u \<noteq> []" "\<not> is_digit (hd u)" by (rule unit_facts)+
  show "match_duration (ds @ u) = Some (ds, u)"
    using assms u
    by (simp add: match_duration_def takeWhile_digits_append dropWhile_digits_append unit_facts)
  have u': "u @ [CHR 0x0A] \<noteq> []" "\<not> is_digit (hd (u @ [CHR 0x0A]))"
    using u by simp_all
  show "match_duration (ds @ u @ [CHR 0x0A]) = Some (ds, u)"
    using assms takeWhile_digits_append [OF assms(2) u'] dropWhile_digits_append [OF assms(2) u']
    by (simp add: match_duration_def unit_facts)
qed

lemma match_duration_SomeD:
  assumes "match_duration s = Some (ds, u)"
  shows "ds \<noteq> [] \<and> list_all is_digit ds \<and> u \<in> set duration_units
         \<and> (s = ds @ u \<or> s = ds @ u @ [CHR 0x0A])"
proof -
  let ?r = "dropWhile is_digit s"
  from assms have ds: "ds = takeWhile is_digit s" and ne: "ds \<noteq> []"
    and u: "u = strip_final_newline ?r" and mem: "u \<in> set duration_units"
    by (auto simp: match_duration_def Let_def split: if_splits)
  have dig: "list_all is_digit ds"
    unfolding ds by (simp add: list_all_iff) (meson set_takeWhileD)
  have s: "s = ds @ ?r" unfolding ds by simp
  have "?r = u \<or> ?r = u @ [CHR 0x0A]"
  proof (cases "?r \<noteq> [] \<and> last ?r = CHR 0x0A")
    case True
    then have "butlast ?r @ [CHR 0x0A] = ?r" using append_butlast_last_id [of ?r] by simp
    moreover from True u have "u = butlast ?r" by (simp add: strip_final_newline_def)
    ultimately show ?thesis by simp
  next
    case False
    with u show ?thesis by (auto simp: strip_final_newline_def)
  qed
  with s ne dig mem show ?thesis by auto
qed

lemma digits_not_indefinite:
  assumes "ds \<noteq> []" "list_all is_digit ds"
  shows "ds @ r \<noteq> ''indefinite''"
proof -
  from assms obtain c cs where "ds = c # cs" "is_digit c" by (cases ds) auto
  then show ?thesis by (auto simp: is_digit_def)
qed

lemma parse_time_duration_match:
  assumes "match_duration (lower s) = Some (ds, u)"
  shows "parse_time_duration s =
           (if length ds \<le> max_str_digits
            then Inr (Some (digits_value ds *
                   (if u = ''mo'' then 2592000 else if u = ''w'' then 604800
                    else if u = ''d'' then 86400 else if u = ''h'' then 3600 else 60)))
            else Inl ValueError)"
proof -
  from match_duration_SomeD [OF assms]
  have ne: "ds \<noteq> []" and dig: "list_all is_digit ds" and mem: "u \<in> set duration_units"
    and s: "lower s = ds @ u \<or> lower s = ds @ u @ [CHR 0x0A]" by auto
  from s ne dig have "lower s \<noteq> ''indefinite''"
    using digits_not_indefinite [of ds] by auto
  with assms mem show ?thesis
    by (auto simp: parse_time_duration_def int_of_digits_def duration_units_def)
qed

lemma parse_time_duration_token:
  assumes "ds \<noteq> []" "list_all is_digit ds" "u \<in> set duration_units"
    and "lower s = ds @ u \<or> lower s = ds @ u @ [CHR 0x0A]"
  shows "parse_time_duration s =
           (if length ds \<le> max_str_digits
            then Inr (Some (digits_value ds *
                   (if u = ''mo'' then 2592000 else if u = ''w'' then 604800
                    else if u = ''d'' then 86400 else if u = ''h'' then 3600 else 60)))
            else Inl ValueError)"
proof -
  from assms(4) match_duration_digits_unit [OF assms(1-3)]
  have "match_duration (lower s) = Some (ds, u)" by auto
  then show ?thesis by (rule parse_time_duration_match)
qed

lemma parse_time_duration_no_token:
  assumes "\<And>ds u. ds \<noteq> [] \<Longrightarrow> list_all is_digit ds \<Longrightarrow> u \<in> set duration_units \<Longrightarrow>
             lower s \<noteq> ds @ u \<and> lower s \<noteq> ds @ u @ [CHR 0x0A]"
  shows "parse_time_duration s = Inr None"
proof (cases "match_duration (lower s)")
  case None
  then show ?thesis by (simp add: parse_time_duration_def)
next
  case (Some p)
  obtain ds u where "p = (ds, u)" by (cases p)
  with Some match_duration_SomeD [of "lower s" ds u] assms [of ds u] show ?thesis by auto
qed

lemma parse_str_nat_unit:
  assumes "u \<in> set duration_units" "length (str_nat n) \<le> max_str_digits"
  shows "parse_time_duration (str_nat n @ u) = Inr (Some (int n *
           (if u = ''mo'' then 2592000 else if u = ''w'' then 604800
            else if u = ''d'' then 86400 else if u = ''h'' then 3600 else 60)))"
proof -
  have "lower (str_nat n @ u) = str_nat n @ u"
    using assms(1) by (simp add: lower_append lower_digits str_nat_digits unit_facts)
  then have "lower (str_nat n @ u) = str_nat n @ u
             \<or> lower (str_nat n @ u) = str_nat n @ u @ [CHR 0x0A]" by simp
  from parse_time_duration_token [OF str_nat_nonempty str_nat_digits assms(1) this] assms(2)
  show ?thesis by (simp add: digits_value_str_nat)
qed

lemma f_string_amount:
  assumes "1 \<le> q" "length (str_nat (nat q)) \<le> max_str_digits"
  shows "f_string q u = Inr (str_nat (nat q) @ u)"
  using assms by (simp add: f_string_def str_int_nonneg)

text \<open>
  One step of the round trip: an amount \<open>q\<close> from 1 upwards that fits the conversion
  limit is rendered, read back as \<open>q\<close> times the unit \<open>k\<close>, and that number is
  rendered the same way when \<open>format_duration\<close> picks the same unit for it.
\<close>

lemma round_trip_step:
  assumes "u \<in> set duration_units" "1 \<le> q" "length (str_nat (nat q)) \<le> max_str_digits"
    and "k = (if u = ''mo'' then 2592000 else if u = ''w'' then 604800
              else if u = ''d'' then 86400 else if u = ''h'' then 3600 else 60)"
    and "format_duration (Some s) = f_string q u"
    and "format_duration (Some (q * k)) = f_string q u"
  shows "\<exists>text v. format_duration (Some s) = Inr text
           \<and> parse_time_duration text = Inr (Some v)
           \<and> format_duration (Some v) = Inr text"
proof -
  have f: "f_string q u = Inr (str_nat (nat q) @ u)"
    by (rule f_string_amount [OF assms(2,3)])
  have "parse_time_duration (str_nat (nat q) @ u) = Inr (Some (q * k))"
    using parse_str_nat_unit [OF assms(1,3)] assms(2,4) by simp
  with f assms(5,6) show ?thesis by auto
qed

lemma format_duration_parse_format:
  assumes "60 \<le> s" "s < 2592000 * 10 ^ max_str_digits"
  shows "\<exists>text v. format_duration (Some s) = Inr text
           \<and> parse_time_duration text = Inr (Some v)
           \<and> format_duration (Some v) = Inr text"
proof -
  consider (m) "s < 3600" | (h) "3600 \<le> s" "s < 86400" | (d) "86400 \<le> s" "s < 604800"
    | (w) "604800 \<le> s" "s < 2592000" | (mo) "2592000 \<le> s" by linarith
  then show ?thesis
  proof cases
    case m
    let ?q = "s div 60"
    have q: "1 \<le> ?q" "?q < 60" using assms m by simp_all
    then have len: "length (str_nat (nat ?q)) \<le> max_str_digits"
      by (intro small_amount_allowed) simp
    show ?thesis
      by (rule round_trip_step [of "''m''" ?q 60, OF _ q(1) len])
         (use assms m q in \<open>simp_all add: duration_units_def format_duration_def\<close>)
  next
    case h
    let ?q = "s div 3600"
    have q: "1 \<le> ?q" "?q < 24" using h by simp_all
    then have len: "length (str_nat (nat ?q)) \<le> max_str_digits"
      by (intro small_amount_allowed) simp
    show ?thesis
      by (rule round_trip_step [of "''h''" ?q 3600, OF _ q(1) len])
         (use h q in \<open>simp_all add: duration_units_def format_duration_def\<close>)
  next
    case d
    let ?q = "s div 86400"
    have q: "1 \<le> ?q" "?q < 7" using d by simp_all
    then have len: "length (str_nat (nat ?q)) \<le> max_str_digits"
      by (intro small_amount_allowed) simp
    show ?thesis
      by (rule round_trip_step [of "''d''" ?q 86400, OF _ q(1) len])
         (use d q in \<open>simp_all add: duration_units_def format_duration_def\<close>)
  next
    case w
    let ?q = "s div 604800"
    have q: "1 \<le> ?q" "?q < 5" using w by simp_all
    then have len: "length (str_nat (nat ?q)) \<le> max_str_digits"
      by (intro small_amount_allowed) simp
    show ?thesis
      by (rule round_trip_step [of "''w''" ?q 604800, OF _ q(1) len])
         (use w q in \<open>simp_all add: duration_units_def format_duration_def\<close>)
  next
    case mo
    let ?q = "s div 2592000"
    have q: "1 \<le> ?q" using mo by simp
    have "?q < 10 ^ max_str_digits" using assms(2) by linarith
    then have "\<not> 10 ^ max_str_digits \<le> \<bar>?q\<bar>" using q by simp
    then have "str_int ?q \<noteq> Inl ValueError" by (simp add: str_int_limit)
    then have len: "length (str_nat (nat ?q)) \<le> max_str_digits"
      using q by (simp add: str_int_nonneg split: if_splits)
    show ?thesis
      by (rule round_trip_step [of "''mo''" ?q 2592000, OF _ q len])
         (use mo q in \<open>simp_all add: duration_units_def format_duration_def\<close>)
  qed
qed

lemma format_duration_limit:
  "format_duration (Some s) = Inl ValueError \<longleftrightarrow>
     s \<le> - (10 ^ max_str_digits) \<or> 2592000 * 10 ^ max_str_digits \<le> s"
proof -
  have big: "(100::int) \<le> 10 ^ max_str_digits"
  proof -
    have "(10::int) ^ 2 \<le> 10 ^ max_str_digits"
      using two_digits_allowed by (intro power_increasing) simp_all
    then show ?thesis by simp
  qed
  have f: "f_string q u = Inl ValueError \<longleftrightarrow> 10 ^ max_str_digits \<le> \<bar>q\<bar>" for q u
    using str_int_limit [of q] by (auto simp: f_string_def split: sum.splits error.splits)
  consider (s) "s < 60" | (m) "60 \<le> s" "s < 3600" | (h) "3600 \<le> s" "s < 86400"
    | (d) "86400 \<le> s" "s < 604800" | (w) "604800 \<le> s" "s < 2592000" | (mo) "2592000 \<le> s"
    by linarith
  then show ?thesis
  proof cases
    case s
    with big show ?thesis by (auto simp: format_duration_def f)
  next
    case m
    then have "0 \<le> s div 60" "s div 60 < 60" by simp_all
    with m big show ?thesis by (simp add: format_duration_def f)
  next
    case h
    then have "0 \<le> s div 3600" "s div 3600 < 24" by simp_all
    with h big show ?thesis by (simp add: format_duration_def f)
  next
    case d
    then have "0 \<le> s div 86400" "s div 86400 < 7" by simp_all
    with d big show ?thesis by (simp add: format_duration_def f)
  next
    case w
    then have "0 \<le> s div 604800" "s div 604800 < 5" by simp_all
    with w big show ?thesis by (simp add: format_duration_def f)
  next
    case mo
    then have q: "0 \<le> s div 2592000" by simp
    have "10 ^ max_str_digits \<le> s div 2592000 \<longleftrightarrow> 2592000 * 10 ^ max_str_digits \<le> s"
      by linarith
    with mo q big show ?thesis by (simp add: format_duration_def f)
  qed
qed

lemma match_duration_seconds_suffix:
  "match_duration (lower (t @ ''s'')) = None"
proof (cases "match_duration (lower (t @ ''s''))")
  case None
  then show ?thesis .
next
  case (Some p)
  obtain ds u where p: "p = (ds, u)" by (cases p)
  from match_duration_SomeD [OF Some [unfolded p]]
  have u: "u \<in> set duration_units"
    and s: "lower (t @ ''s'') = ds @ u \<or> lower (t @ ''s'') = ds @ u @ [CHR 0x0A]"
    by auto
  have l: "last (lower (t @ ''s'')) = CHR ''s''"
    by (simp add: lower_def lower_char_def)
  from s u l show ?thesis
    by (auto simp: duration_units_def)
qed

lemma seconds_text_not_indefinite: "lower (t @ ''s'') \<noteq> ''indefinite''"
proof
  assume "lower (t @ ''s'') = ''indefinite''"
  then have "last (lower (t @ ''s'')) = CHR ''e''" by simp
  then show False by (simp add: lower_def lower_char_def)
qed

lemma parse_format_seconds:
  assumes "s < 60" "format_duration (Some s) = Inr text"
  shows "parse_time_duration text = Inr None"
proof -
  from assms obtain t where t: "str_int s = Inr t" "text = t @ ''s''"
    by (auto simp: format_duration_def f_string_def split: sum.splits)
  with match_duration_seconds_suffix [of t] seconds_text_not_indefinite [of t]
  show ?thesis by (simp add: parse_time_duration_def)
qed

section \<open>Claims about the duration functions\<close>

lemma within_limit: "(s::int) < 259200000 \<Longrightarrow> s < 2592000 * 10 ^ max_str_digits"
proof -
  have "(10::int) ^ 2 \<le> 10 ^ max_str_digits"
    using two_digits_allowed by (intro power_increasing) simp_all
  then have "(100::int) \<le> 10 ^ max_str_digits" by simp
  then show "s < 259200000 \<Longrightarrow> s < 2592000 * 10 ^ max_str_digits" by linarith
qed

lemma above_lower_limit: "- 100 < (s::int) \<Longrightarrow> - (10 ^ max_str_digits) < s"
proof -
  have "(10::int) ^ 2 \<le> 10 ^ max_str_digits"
    using two_digits_allowed by (intro power_increasing) simp_all
  then have "(100::int) \<le> 10 ^ max_str_digits" by simp
  then show "- 100 < s \<Longrightarrow> - (10 ^ max_str_digits) < s" by linarith
qed

text \<open>
  C4, as stated, fails at 30 seconds: \<open>format_duration\<close> renders a value below one minute
  with the suffix \<open>s\<close>, a unit \<open>parse_time_duration\<close> does not accept; formatting what
  the parser returns renders \<open>indefinite\<close>.
\<close>

theorem duration_fixpoint_fails_at_30:
  "format_duration (Some 30) = Inr ''30s''
   \<and> parse_time_duration ''30s'' = Inr None
   \<and> format_duration None = Inr ''indefinite''
   \<and> format_duration None \<noteq> format_duration (Some 30)"
  by code_simp

text \<open>
  C4, amended: for every number of seconds from 60 upwards that \<open>format_duration\<close> can
  render (3600, 90000, 700000 and 3000000 among them) the rendered text is parsed to a
  number of seconds, and formatting that number renders the same text. Below 60 seconds
  (30 among them) the rendered text is rejected by the parser with \<open>None\<close>, and
  formatting \<open>None\<close> renders \<open>indefinite\<close>, a different text. \<open>format_duration\<close>
  raises \<open>ValueError\<close> exactly when the amount to render has more than 4300 digits.
\<close>

theorem duration_fixpoint_from_one_minute:
  "(60 \<le> s \<and> s < 2592000 * 10 ^ max_str_digits \<longrightarrow>
      (\<exists>text v. format_duration (Some s) = Inr text
         \<and> parse_time_duration text = Inr (Some v)
         \<and> format_duration (Some v) = Inr text))
   \<and> (- (10 ^ max_str_digits) < s \<and> s < 60 \<longrightarrow>
      (\<exists>text. format_duration (Some s) = Inr text
         \<and> parse_time_duration text = Inr None
         \<and> format_duration None = Inr ''indefinite''
         \<and> text \<noteq> ''indefinite''))
   \<and> (s \<le> - (10 ^ max_str_digits) \<or> 2592000 * 10 ^ max_str_digits \<le> s \<longrightarrow>
      format_duration (Some s) = Inl ValueError)"
proof (intro conjI impI)
  assume "60 \<le> s \<and> s < 2592000 * 10 ^ max_str_digits"
  then show "\<exists>text v. format_duration (Some s) = Inr text
         \<and> parse_time_duration text = Inr (Some v)
         \<and> format_duration (Some v) = Inr text"
    by (intro format_duration_parse_format) simp_all
next
  assume a: "- (10 ^ max_str_digits) < s \<and> s < 60"
  have "(100::int) \<le> 10 ^ max_str_digits"
    using within_limit [of 259199999] by simp
  with a have "\<not> 10 ^ max_str_digits \<le> \<bar>s\<bar>" by linarith
  then have "str_int s \<noteq> Inl ValueError" by (simp add: str_int_limit)
  then obtain t where "str_int s = Inr t"
    by (cases "str_int s") (auto simp: str_int_def Let_def split: if_splits)
  with a obtain rendered where f: "format_duration (Some s) = Inr rendered"
    and t: "rendered = t @ ''s''"
    by (simp add: format_duration_def f_string_def)
  have "rendered \<noteq> ''indefinite''" unfolding t by simp
  moreover have "parse_time_duration rendered = Inr None"
    using a f by (intro parse_format_seconds [of s]) simp_all
  moreover have "format_duration None = Inr ''indefinite''"
    by (simp add: format_duration_def)
  ultimately show "\<exists>text. format_duration (Some s) = Inr text
         \<and> parse_time_duration text = Inr None
         \<and> format_duration None = Inr ''indefinite''
         \<and> text \<noteq> ''indefinite''"
    using f by blast
next
  assume "s \<le> - (10 ^ max_str_digits) \<or> 2592000 * 10 ^ max_str_digits \<le> s"
  then show "format_duration (Some s) = Inl ValueError"
    by (simp only: format_duration_limit)
qed

theorem duration_fixpoint_from_one_minute_witness:
  "format_duration (Some 3600) = Inr ''1h'' \<and> format_duration (Some 90000) = Inr ''1d''
   \<and> format_duration (Some 700000) = Inr ''1w'' \<and> format_duration (Some 3000000) = Inr ''1mo''
   \<and> parse_time_duration ''1h'' = Inr (Some 3600) \<and> format_duration (Some 3600) = Inr ''1h''
   \<and> parse_time_duration ''1d'' = Inr (Some 86400) \<and> format_duration (Some 86400) = Inr ''1d''
   \<and> parse_time_duration ''1w'' = Inr (Some 604800) \<and> format_duration (Some 604800) = Inr ''1w''
   \<and> parse_time_duration ''1mo'' = Inr (Some 2592000)
   \<and> format_duration (Some 2592000) = Inr ''1mo''
   \<and> format_duration (Some 30) = Inr ''30s'' \<and> parse_time_duration ''30s'' = Inr None"
proof -
  have f: "format_duration (Some 3600) = Inr ''1h''" "format_duration (Some 90000) = Inr ''1d''"
    "format_duration (Some 700000) = Inr ''1w''" "format_duration (Some 3000000) = Inr ''1mo''"
    "format_duration (Some 30) = Inr ''30s''"
    by code_simp+
  have p: "parse_time_duration ''1h'' = Inr (Some 3600)"
    "parse_time_duration ''1d'' = Inr (Some 86400)"
    "parse_time_duration ''1w'' = Inr (Some 604800)"
    "parse_time_duration ''1mo'' = Inr (Some 2592000)"
    by code_simp+
  note t = duration_fixpoint_from_one_minute [THEN conjunct1, THEN mp, OF conjI, OF _ within_limit]
  from t [of 3600] f(1) p(1) have 1: "format_duration (Some 3600) = Inr ''1h''" by auto
  from t [of 90000] f(2) p(2) have 2: "format_duration (Some 86400) = Inr ''1d''" by auto
  from t [of 700000] f(3) p(3) have 3: "format_duration (Some 604800) = Inr ''1w''" by auto
  from t [of 3000000] f(4) p(4) have 4: "format_duration (Some 2592000) = Inr ''1mo''" by auto
  from duration_fixpoint_from_one_minute
         [THEN conjunct2, THEN conjunct1, THEN mp, OF conjI, OF above_lower_limit, of 30] f(5)
  have 5: "parse_time_duration ''30s'' = Inr None" by auto
  from f p 1 2 3 4 5 show ?thesis by simp
qed

text \<open>
  C8, as stated, fails: a malformed text and the literal \<open>indefinite\<close> give the same
  result, so the result alone does not tell the two apart.
\<close>

theorem parse_time_duration_malformed_is_indefinite:
  "parse_time_duration ''2 hours'' = parse_time_duration ''indefinite''"
  by code_simp

text \<open>
  C8, amended, for text of code points below 256: a token is a text that, put in lower
  case, is a non-empty run of decimal digits followed by \<open>m\<close>, \<open>h\<close>, \<open>d\<close>, \<open>w\<close> or
  \<open>mo\<close> and at most one final newline. For a token of at most 4300 digits, whatever the
  case of its letters, \<open>parse_time_duration\<close> returns the amount times 60, 3600, 86400,
  604800 or 2592000; for a token of more digits \<open>int\<close> raises \<open>ValueError\<close>, which
  leaves the function. For every text that is not a token, the literal \<open>indefinite\<close>
  included, it returns \<open>None\<close>, so its result does not tell the malformed from the
  indefinite. \<open>validate_punishment_duration\<close> tells them apart by testing for the literal
  before it parses, and passes the exception on.
\<close>

theorem parse_time_duration_outcomes:
  "(ds \<noteq> [] \<and> list_all is_digit ds \<and> u \<in> set duration_units
      \<and> (lower s = ds @ u \<or> lower s = ds @ u @ [CHR 0x0A]) \<longrightarrow>
      parse_time_duration s =
        (if length ds \<le> max_str_digits
         then Inr (Some (digits_value ds *
                (if u = ''mo'' then 2592000 else if u = ''w'' then 604800
                 else if u = ''d'' then 86400 else if u = ''h'' then 3600 else 60)))
         else Inl ValueError))
   \<and> ((\<forall>ds u. ds \<noteq> [] \<and> list_all is_digit ds \<and> u \<in> set duration_units \<longrightarrow>
              lower s \<noteq> ds @ u \<and> lower s \<noteq> ds @ u @ [CHR 0x0A]) \<longrightarrow>
      parse_time_duration s = Inr None)
   \<and> (lower s = ''indefinite'' \<longrightarrow>
      parse_time_duration s = Inr None \<and> validate_punishment_duration s = Inr True)
   \<and> (lower s \<noteq> ''indefinite'' \<longrightarrow>
      (parse_time_duration s = Inr None \<longrightarrow> validate_punishment_duration s = Inr False)
      \<and> (parse_time_duration s = Inr (Some n) \<longrightarrow> validate_punishment_duration s = Inr True)
      \<and> (parse_time_duration s = Inl e \<longrightarrow> validate_punishment_duration s = Inl e))"
proof (intro conjI impI)
  assume "ds \<noteq> [] \<and> list_all is_digit ds \<and> u \<in> set duration_units
      \<and> (lower s = ds @ u \<or> lower s = ds @ u @ [CHR 0x0A])"
  then show "parse_time_duration s =
        (if length ds \<le> max_str_digits
         then Inr (Some (digits_value ds *
                (if u = ''mo'' then 2592000 else if u = ''w'' then 604800
                 else if u = ''d'' then 86400 else if u = ''h'' then 3600 else 60)))
         else Inl ValueError)"
    by (intro parse_time_duration_token) simp_all
next
  assume "\<forall>ds u. ds \<noteq> [] \<and> list_all is_digit ds \<and> u \<in> set duration_units \<longrightarrow>
              lower s \<noteq> ds @ u \<and> lower s \<noteq> ds @ u @ [CHR 0x0A]"
  then show "parse_time_duration s = Inr None"
    by (intro parse_time_duration_no_token) blast
next
  assume "lower s = ''indefinite''"
  then show "parse_time_duration s = Inr None" "validate_punishment_duration s = Inr True"
    by (simp_all add: parse_time_duration_def validate_punishment_duration_def)
next
  assume "lower s \<noteq> ''indefinite''" "parse_time_duration s = Inr None"
  then show "validate_punishment_duration s = Inr False"
    by (simp add: validate_punishment_duration_def)
next
  assume "lower s \<noteq> ''indefinite''" "parse_time_duration s = Inr (Some n)"
  then show "validate_punishment_duration s = Inr True"
    by (simp add: validate_punishment_duration_def)
next
  assume "lower s \<noteq> ''indefinite''" "parse_time_duration s = Inl e"
  then show "validate_punishment_duration s = Inl e"
    by (simp add: validate_punishment_duration_def)
qed

theorem parse_time_duration_outcomes_witness:
  "parse_time_duration ''15M'' = Inr (Some 900)
   \<and> parse_time_duration ''15Mo'' = Inr (Some 38880000)
   \<and> parse_time_duration (replicate 4301 (CHR ''9'') @ ''m'') = Inl ValueError
   \<and> parse_time_duration ''INDEFINITE'' = Inr None
   \<and> validate_punishment_duration ''INDEFINITE'' = Inr True
   \<and> parse_time_duration ''2 hours'' = Inr None
   \<and> validate_punishment_duration ''2 hours'' = Inr False"
proof -
  have amount: "digits_value ''15'' = 15" by code_simp
  have short: "length ''15'' \<le> max_str_digits" by (simp add: max_str_digits_def)
  have m: "''15'' \<noteq> [] \<and> list_all is_digit ''15'' \<and> ''m'' \<in> set duration_units
      \<and> (lower ''15M'' = ''15'' @ ''m'' \<or> lower ''15M'' = ''15'' @ ''m'' @ [CHR 0x0A])"
    and mo: "''15'' \<noteq> [] \<and> list_all is_digit ''15'' \<and> ''mo'' \<in> set duration_units
      \<and> (lower ''15Mo'' = ''15'' @ ''mo'' \<or> lower ''15Mo'' = ''15'' @ ''mo'' @ [CHR 0x0A])"
    by code_simp+
  let ?nines = "replicate 4301 (CHR ''9'')"
  have nines: "list_all is_digit ?nines"
    by (simp add: list_all_iff is_digit_def)
  have long: "?nines \<noteq> [] \<and> list_all is_digit ?nines \<and> ''m'' \<in> set duration_units
      \<and> (lower (?nines @ ''m'') = ?nines @ ''m''
          \<or> lower (?nines @ ''m'') = ?nines @ ''m'' @ [CHR 0x0A])"
    using nines by (simp add: lower_append lower_digits unit_facts duration_units_def)
  have len: "\<not> length ?nines \<le> max_str_digits" by (simp add: max_str_digits_def)
  have low: "lower ''INDEFINITE'' = ''indefinite''"
    and other: "lower ''2 hours'' \<noteq> ''indefinite''"
    and none: "parse_time_duration ''2 hours'' = Inr None" by code_simp+
  note t = parse_time_duration_outcomes
  from t [THEN conjunct1, THEN mp, OF m] amount short
  have 1: "parse_time_duration ''15M'' = Inr (Some 900)" by simp
  from t [THEN conjunct1, THEN mp, OF mo] amount short
  have 2: "parse_time_duration ''15Mo'' = Inr (Some 38880000)" by simp
  from t [THEN conjunct1, THEN mp, OF long] len
  have 3: "parse_time_duration (?nines @ ''m'') = Inl ValueError" by simp
  from t [THEN conjunct2, THEN conjunct2, THEN conjunct1, THEN mp, OF low]
  have 4: "parse_time_duration ''INDEFINITE'' = Inr None"
    "validate_punishment_duration ''INDEFINITE'' = Inr True" by simp_all
  from t [THEN conjunct2, THEN conjunct2, THEN conjunct2, THEN mp, OF other,
          THEN conjunct1, THEN mp, OF none]
  have 5: "validate_punishment_duration ''2 hours'' = Inr False" .
  from 1 2 3 4 5 none show ?thesis by simp
qed

section \<open>The sample stores are written by the code\<close>

lemma sample_stores_reachable:
  "create_log True 100 init_logs_file 7 42 (section_sign # ''2'') ''spam'' ''2h'' (Some 7300)
     (Some 100) (Some 9) = (Inr 1, one_log)"
  "create_log True 100 one_log 7 43 (section_sign # ''2'') ''spam'' ''2h'' (Some 7300)
     (Some 100) (Some 9) = (Inr 2, two_logs)"
  "create_log True 100 one_log 7 42 (section_sign # ''2'') ''spam'' ''2h'' (Some 7300)
     (Some 100) (Some 9) = (Inr 2, two_same)"
  by (simp_all add: create_log_def save_json_def max_default_def init_logs_file_def one_log_def
      two_logs_def two_same_def sample_log_def)

section \<open>The loop that changes the first matching entry\<close>

lemma update_first_None: "update_first P f xs = None \<longleftrightarrow> (\<forall>x \<in> set xs. \<not> P x)"
  by (induction xs) auto

lemma update_first_split:
  "\<forall>y \<in> set pre. \<not> P y \<Longrightarrow> P x \<Longrightarrow> update_first P f (pre @ x # post) = Some (pre @ f x # post)"
  by (induction pre) auto

lemma update_first_SomeD:
  "update_first P f xs = Some ys \<Longrightarrow>
   \<exists>pre x post. xs = pre @ x # post \<and> (\<forall>y \<in> set pre. \<not> P y) \<and> P x \<and> ys = pre @ f x # post"
proof (induction xs arbitrary: ys)
  case Nil
  then show ?case by simp
next
  case (Cons a xs)
  show ?case
  proof (cases "P a")
    case True
    with Cons.prems have "ys = f a # xs" by simp
    with True show ?thesis by (intro exI [of _ "[]"] exI [of _ a] exI [of _ xs]) simp
  next
    case False
    with Cons.prems obtain zs where zs: "update_first P f xs = Some zs" "ys = a # zs"
      by auto
    from Cons.IH [OF zs(1)] obtain pre x post
      where "xs = pre @ x # post" "\<forall>y \<in> set pre. \<not> P y" "P x" "zs = pre @ f x # post"
      by blast
    with False zs(2) show ?thesis
      by (intro exI [of _ "a # pre"] exI [of _ x] exI [of _ post]) simp
  qed
qed

lemma update_first_count:
  assumes "update_first P f xs = Some ys" and "\<And>x. P x \<Longrightarrow> \<not> P (f x)"
  shows "Suc (length (filter P ys)) = length (filter P xs)"
proof -
  from update_first_SomeD [OF assms(1)] obtain pre x post
    where "xs = pre @ x # post" "\<forall>y \<in> set pre. \<not> P y" "P x" "ys = pre @ f x # post"
    by blast
  with assms(2) [of x] show ?thesis by simp
qed

lemma update_first_again:
  assumes "length (filter P xs) \<le> 1" and "update_first P f xs = Some ys"
    and "\<And>x. P x \<Longrightarrow> \<not> P (f x)"
  shows "update_first P f ys = None"
proof -
  from update_first_count [OF assms(2,3)] assms(1) have "length (filter P ys) < 1"
    by linarith
  then have "filter P ys = []" by simp
  then have "\<forall>y \<in> set ys. \<not> P y" by (simp add: filter_empty_conv)
  then show ?thesis by (simp add: update_first_None)
qed

lemma mark_punishment_completed_twice:
  assumes "length (filter (\<lambda>log. user_id log = user \<and> guild_id log = guild \<and>
                                  release_time log = Some release) (logs file)) \<le> 1"
  shows "mark_punishment_completed ok2 now2
           (snd (mark_punishment_completed True now1 file user guild release)) user guild release
         = (False, snd (mark_punishment_completed True now1 file user guild release))"
proof -
  let ?P = "\<lambda>log. user_id log = user \<and> guild_id log = guild \<and> release_time log = Some release"
  let ?f = "\<lambda>log. log \<lparr> release_time := None, completed_at := Some now1 \<rparr>"
  let ?g = "\<lambda>log. log \<lparr> release_time := None, completed_at := Some now2 \<rparr>"
  show ?thesis
  proof (cases "update_first ?P ?f (logs file)")
    case None
    then have "\<forall>x \<in> set (logs file). \<not> ?P x" by (simp only: update_first_None)
    then have "update_first ?P ?g (logs file) = None" by (simp only: update_first_None)
    with None show ?thesis by (simp add: mark_punishment_completed_def)
  next
    case (Some ys)
    have "update_first ?P ?f ys = None"
      by (rule update_first_again [OF assms Some]) simp
    then have "\<forall>x \<in> set ys. \<not> ?P x" by (simp only: update_first_None)
    then have "update_first ?P ?g ys = None" by (simp only: update_first_None)
    with Some show ?thesis by (simp add: mark_punishment_completed_def save_json_def)
  qed
qed

lemma mark_temp_ban_completed_twice:
  assumes "length (filter (\<lambda>ban. ban_user_id ban = user \<and> ban_guild_id ban = guild \<and>
                                  unban_time ban = Some unban \<and> \<not> unbanned ban) file) \<le> 1"
  shows "mark_temp_ban_completed ok2 now2
           (snd (mark_temp_ban_completed True now1 file user guild unban)) user guild unban
         = (False, snd (mark_temp_ban_completed True now1 file user guild unban))"
proof -
  let ?P = "\<lambda>ban. ban_user_id ban = user \<and> ban_guild_id ban = guild \<and>
                   unban_time ban = Some unban \<and> \<not> unbanned ban"
  let ?f = "\<lambda>ban. ban \<lparr> unbanned := True, unbanned_at := Some now1 \<rparr>"
  let ?g = "\<lambda>ban. ban \<lparr> unbanned := True, unbanned_at := Some now2 \<rparr>"
  show ?thesis
  proof (cases "update_first ?P ?f file")
    case None
    then have "\<forall>x \<in> set file. \<not> ?P x" by (simp only: update_first_None)
    then have "update_first ?P ?g file = None" by (simp only: update_first_None)
    with None show ?thesis by (simp add: mark_temp_ban_completed_def)
  next
    case (Some ys)
    have "update_first ?P ?f ys = None"
      by (rule update_first_again [OF assms Some]) simp
    then have "\<forall>x \<in> set ys. \<not> ?P x" by (simp only: update_first_None)
    then have "update_first ?P ?g ys = None" by (simp only: update_first_None)
    with Some show ?thesis by (simp add: mark_temp_ban_completed_def save_json_def)
  qed
qed

lemma find_split:
  "\<forall>y \<in> set pre. \<not> P y \<Longrightarrow> P x \<Longrightarrow> find P (pre @ x # post) = Some x"
  by (induction pre) auto

lemma update_first_shadowed:
  "\<exists>y \<in> set pre. P y \<Longrightarrow>
   \<exists>pre'. update_first P f (pre @ rest) = Some (pre' @ rest) \<and> length pre' = length pre"
proof (induction pre)
  case Nil
  then show ?case by simp
next
  case (Cons a pre)
  show ?case
  proof (cases "P a")
    case True
    then have "update_first P f ((a # pre) @ rest) = Some ((f a # pre) @ rest)" by simp
    then show ?thesis by (intro exI [of _ "f a # pre"]) simp
  next
    case False
    with Cons.prems have "\<exists>y \<in> set pre. P y" by simp
    from Cons.IH [OF this] obtain pre'
      where "update_first P f (pre @ rest) = Some (pre' @ rest)" "length pre' = length pre"
      by blast
    with False have "update_first P f ((a # pre) @ rest) = Some ((a # pre') @ rest)
                     \<and> length (a # pre') = length (a # pre)" by simp
    then show ?thesis by blast
  qed
qed

text \<open>
  The first call of \<open>mark_temp_ban_completed\<close>: the first ban of the user in the guild
  with the unban time that is not yet unbanned is marked, and no other.
\<close>

lemma mark_temp_ban_completed_first_match:
  assumes "file = pre @ ban # post"
    and "\<forall>b \<in> set pre. \<not> (ban_user_id b = user \<and> ban_guild_id b = guild \<and>
                            unban_time b = Some unban \<and> \<not> unbanned b)"
    and "ban_user_id ban = user \<and> ban_guild_id ban = guild \<and> unban_time ban = Some unban
         \<and> \<not> unbanned ban"
  shows "mark_temp_ban_completed True now_ts file user guild unban =
           (True, pre @ ban \<lparr> unbanned := True, unbanned_at := Some now_ts \<rparr> # post)"
proof -
  let ?P = "\<lambda>b. ban_user_id b = user \<and> ban_guild_id b = guild \<and>
                 unban_time b = Some unban \<and> \<not> unbanned b"
  have "update_first ?P (\<lambda>ban. ban \<lparr> unbanned := True, unbanned_at := Some now_ts \<rparr>)
          (pre @ ban # post)
        = Some (pre @ ban \<lparr> unbanned := True, unbanned_at := Some now_ts \<rparr> # post)"
    using assms(2,3) by (intro update_first_split) simp_all
  then show ?thesis
    using assms(1) by (simp add: mark_temp_ban_completed_def save_json_def)
qed


section \<open>Claims about completion and retraction\<close>

text \<open>
  C10: \<open>mark_punishment_completed\<close> is keyed on the exact triple of user, guild and
  release time. When no entry carries the triple (the entry was extended, reduced, retracted
  or completed in the meantime) it returns \<open>False\<close> and the file is unchanged, whatever
  the disk does. Otherwise it clears the release time and sets \<open>completed_at\<close> on the
  first entry carrying the triple and on no other.
\<close>

theorem mark_punishment_completed_exact_match:
  "((\<forall>l \<in> set (logs file). \<not> (user_id l = user \<and> guild_id l = guild \<and>
                                  release_time l = Some release)) \<longrightarrow>
      mark_punishment_completed write_ok now_ts file user guild release = (False, file))
   \<and> (logs file = pre @ log # post
        \<and> (\<forall>l \<in> set pre. \<not> (user_id l = user \<and> guild_id l = guild \<and>
                                 release_time l = Some release))
        \<and> user_id log = user \<and> guild_id log = guild \<and> release_time log = Some release \<longrightarrow>
      mark_punishment_completed True now_ts file user guild release =
        (True, file \<lparr> logs := pre @ log \<lparr> release_time := None, completed_at := Some now_ts \<rparr>
                                   # post \<rparr>))"
proof (intro conjI impI)
  let ?P = "\<lambda>l. user_id l = user \<and> guild_id l = guild \<and> release_time l = Some release"
  let ?f = "\<lambda>l. l \<lparr> release_time := None, completed_at := Some now_ts \<rparr>"
  assume "\<forall>l \<in> set (logs file). \<not> ?P l"
  then have "update_first ?P ?f (logs file) = None" by (simp only: update_first_None)
  then show "mark_punishment_completed write_ok now_ts file user guild release = (False, file)"
    by (simp add: mark_punishment_completed_def)
next
  let ?P = "\<lambda>l. user_id l = user \<and> guild_id l = guild \<and> release_time l = Some release"
  let ?f = "\<lambda>l. l \<lparr> release_time := None, completed_at := Some now_ts \<rparr>"
  assume a: "logs file = pre @ log # post \<and> (\<forall>l \<in> set pre. \<not> ?P l)
             \<and> user_id log = user \<and> guild_id log = guild \<and> release_time log = Some release"
  then have "update_first ?P ?f (pre @ log # post) = Some (pre @ ?f log # post)"
    by (intro update_first_split) simp_all
  with a show "mark_punishment_completed True now_ts file user guild release =
        (True, file \<lparr> logs := pre @ ?f log # post \<rparr>)"
    by (simp add: mark_punishment_completed_def save_json_def)
qed

theorem mark_punishment_completed_exact_match_witness:
  "mark_punishment_completed True 7300 two_logs 43 7 7300 =
     (True, two_logs \<lparr> logs := [sample_log 1 7 42 (Some 7300),
        (sample_log 2 7 43 (Some 7300)) \<lparr> release_time := None, completed_at := Some 7300 \<rparr>] \<rparr>)
   \<and> mark_punishment_completed True 7300 two_logs 43 7 9100 = (False, two_logs)"
proof -
  have split: "logs two_logs = [sample_log 1 7 42 (Some 7300)] @ sample_log 2 7 43 (Some 7300) # []
      \<and> (\<forall>l \<in> set [sample_log 1 7 42 (Some 7300)].
            \<not> (user_id l = 43 \<and> guild_id l = 7 \<and> release_time l = Some 7300))
      \<and> user_id (sample_log 2 7 43 (Some 7300)) = 43
      \<and> guild_id (sample_log 2 7 43 (Some 7300)) = 7
      \<and> release_time (sample_log 2 7 43 (Some 7300)) = Some 7300"
    by (simp add: two_logs_def sample_log_def)
  have none: "\<forall>l \<in> set (logs two_logs).
      \<not> (user_id l = 43 \<and> guild_id l = 7 \<and> release_time l = Some 9100)"
    by (simp add: two_logs_def sample_log_def)
  from mark_punishment_completed_exact_match [THEN conjunct2, THEN mp, OF split, of 7300]
    mark_punishment_completed_exact_match [THEN conjunct1, THEN mp, OF none, of True 7300]
  show ?thesis by simp
qed

text \<open>
  C2, as stated, fails: when two entries of the same user and guild carry the same release
  time, the first call completes the first of them and the repeated call completes the
  second, so the file after two calls differs from the file after one.
\<close>

theorem mark_punishment_completed_repeat_changes_store:
  "snd (mark_punishment_completed True 7400
          (snd (mark_punishment_completed True 7300 two_same 42 7 7300)) 42 7 7300)
   \<noteq> snd (mark_punishment_completed True 7300 two_same 42 7 7300)"
  by (simp add: two_same_def sample_log_def mark_punishment_completed_def save_json_def)


text \<open>
  C2, amended: when at most one stored entry carries the triple of user, guild and release
  time (for a temporary ban: user, guild, unban time, and not yet unbanned), a second call
  with the same arguments returns \<open>False\<close> and leaves the file as the first call left it,
  whatever the clock and the disk do at the second call.
\<close>

theorem mark_completed_repeat_single_match:
  "(length (filter (\<lambda>log. user_id log = user \<and> guild_id log = guild \<and>
                          release_time log = Some release) (logs file)) \<le> 1 \<longrightarrow>
      mark_punishment_completed ok2 now2
        (snd (mark_punishment_completed True now1 file user guild release)) user guild release
      = (False, snd (mark_punishment_completed True now1 file user guild release)))
   \<and> (length (filter (\<lambda>ban. ban_user_id ban = user \<and> ban_guild_id ban = guild \<and>
                            unban_time ban = Some release \<and> \<not> unbanned ban) bans) \<le> 1 \<longrightarrow>
      mark_temp_ban_completed ok2 now2
        (snd (mark_temp_ban_completed True now1 bans user guild release)) user guild release
      = (False, snd (mark_temp_ban_completed True now1 bans user guild release)))"
  using mark_punishment_completed_twice mark_temp_ban_completed_twice by blast

theorem mark_completed_repeat_single_match_witness:
  "mark_punishment_completed True 7400
     (snd (mark_punishment_completed True 7300 two_logs 43 7 7300)) 43 7 7300
   = (False, snd (mark_punishment_completed True 7300 two_logs 43 7 7300))
   \<and> mark_temp_ban_completed True 7400
       (snd (mark_temp_ban_completed True 7300 [sample_ban 7 43 7300] 43 7 7300)) 43 7 7300
     = (False, snd (mark_temp_ban_completed True 7300 [sample_ban 7 43 7300] 43 7 7300))"
proof -
  have logs: "length (filter (\<lambda>log. user_id log = 43 \<and> guild_id log = 7 \<and>
                          release_time log = Some 7300) (logs two_logs)) \<le> 1"
    by (simp add: two_logs_def sample_log_def)
  have bans: "length (filter (\<lambda>ban. ban_user_id ban = 43 \<and> ban_guild_id ban = 7 \<and>
                          unban_time ban = Some 7300 \<and> \<not> unbanned ban) [sample_ban 7 43 7300]) \<le> 1"
    by (simp add: sample_ban_def)
  from mark_completed_repeat_single_match [THEN conjunct1, THEN mp, OF logs]
    mark_completed_repeat_single_match [THEN conjunct2, THEN mp, OF bans]
  show ?thesis by blast
qed

lemma retract_log_first_entry:
  "logs file = pre @ log # post
   \<and> (\<forall>l \<in> set pre. \<not> (log_number l = number \<and> guild_id l = guild))
   \<and> log_number log = number \<and> guild_id log = guild \<longrightarrow>
   retract_log True now_ts file number guild True =
     (True, file \<lparr> logs := pre @ log \<lparr> retracted := True, release_time := None,
                                       updated_at := Some now_ts \<rparr> # post \<rparr>)
   \<and> get_active_punishments (snd (retract_log True now_ts file number guild True)) g =
       get_active_punishments (file \<lparr> logs := pre @ post \<rparr>) g
   \<and> get_expired_punishments t (snd (retract_log True now_ts file number guild True)) g =
       get_expired_punishments t (file \<lparr> logs := pre @ post \<rparr>) g
   \<and> get_log file number guild =
       Some (user_id log, rule_violation log, description log, punishment log, message_id log,
             guild_id log, release_time log, punishment_start log, retracted log, moderator_id log)
   \<and> get_log (snd (retract_log True now_ts file number guild True)) number guild =
       Some (user_id log, rule_violation log, description log, punishment log, message_id log,
             guild_id log, None, punishment_start log, True, moderator_id log)"
proof (intro impI)
  let ?P = "\<lambda>l. log_number l = number \<and> guild_id l = guild"
  let ?log' = "log \<lparr> retracted := True, release_time := None, updated_at := Some now_ts \<rparr>"
  let ?file' = "file \<lparr> logs := pre @ ?log' # post \<rparr>"
  assume a: "logs file = pre @ log # post \<and> (\<forall>l \<in> set pre. \<not> ?P l)
             \<and> log_number log = number \<and> guild_id log = guild"
  then have pre: "\<forall>l \<in> set pre. \<not> ?P l" and key: "?P log" and key': "?P ?log'" by simp_all
  have upd: "update_first ?P (\<lambda>log. log \<lparr> retracted := True,
                 release_time := (if True then None else release_time log),
                 updated_at := Some now_ts \<rparr>) (pre @ log # post) = Some (pre @ ?log' # post)"
    using update_first_split [OF pre key] by simp
  have r: "retract_log True now_ts file number guild True = (True, ?file')"
    using a upd by (simp add: retract_log_def save_json_def)
  have act: "get_active_punishments ?file' g = get_active_punishments (file \<lparr> logs := pre @ post \<rparr>) g"
    by (simp add: get_active_punishments_def)
  have exp: "get_expired_punishments t ?file' g = get_expired_punishments t (file \<lparr> logs := pre @ post \<rparr>) g"
    by (simp add: get_expired_punishments_def)
  have g0: "get_log file number guild =
       Some (user_id log, rule_violation log, description log, punishment log, message_id log,
             guild_id log, release_time log, punishment_start log, retracted log, moderator_id log)"
    using a find_split [OF pre key, of post] by (simp add: get_log_def)
  have g1: "get_log ?file' number guild =
       Some (user_id log, rule_violation log, description log, punishment log, message_id log,
             guild_id log, None, punishment_start log, True, moderator_id log)"
    using find_split [OF pre key', of post] by (simp add: get_log_def)
  from r act exp g0 g1
  show "retract_log True now_ts file number guild True = (True, ?file')
   \<and> get_active_punishments (snd (retract_log True now_ts file number guild True)) g =
       get_active_punishments (file \<lparr> logs := pre @ post \<rparr>) g
   \<and> get_expired_punishments t (snd (retract_log True now_ts file number guild True)) g =
       get_expired_punishments t (file \<lparr> logs := pre @ post \<rparr>) g
   \<and> get_log file number guild =
       Some (user_id log, rule_violation log, description log, punishment log, message_id log,
             guild_id log, release_time log, punishment_start log, retracted log, moderator_id log)
   \<and> get_log (snd (retract_log True now_ts file number guild True)) number guild =
       Some (user_id log, rule_violation log, description log, punishment log, message_id log,
             guild_id log, None, punishment_start log, True, moderator_id log)"
    by simp
qed

text \<open>
  C9, as stated, fails for a stored sanction that an earlier entry shadows. In
  \<open>renumbered_logs\<close> entry 1 of user 42 was retracted and the sanction of user 43, created
  afterwards, carries the number 1 as well. Retracting number 1 reports success, yet the
  sanction of user 43 is still listed as active and as expired, and \<open>get_log\<close> returns
  the entry of user 42.
\<close>

theorem retract_log_misses_shadowed_sanction:
  "map log_number (logs renumbered_logs) = [1, 1]
   \<and> map user_id (logs renumbered_logs) = [42, 43]
   \<and> get_active_punishments renumbered_logs None = [(43, 7, 3800, 200)]
   \<and> fst (retract_log True 300 renumbered_logs 1 7 True) = True
   \<and> get_active_punishments (snd (retract_log True 300 renumbered_logs 1 7 True)) None
       = [(43, 7, 3800, 200)]
   \<and> get_expired_punishments 4000 (snd (retract_log True 300 renumbered_logs 1 7 True)) None
       = [(43, 7, 3800)]
   \<and> map retracted (logs (snd (retract_log True 300 renumbered_logs 1 7 True))) = [True, False]
   \<and> get_log (snd (retract_log True 300 renumbered_logs 1 7 True)) 1 7
       = Some (42, section_sign # ''2'', ''spam'', ''2h'', None, 7, None, 100, True, Some 9)"
  by (simp add: renumbered_logs_def one_log_def sample_log_def create_log_def retract_log_def
      save_json_def max_default_def get_active_punishments_def get_expired_punishments_def
      get_log_def)

text \<open>
  C9, amended: for every stored sanction that is the first entry of the store with its log
  number and guild, which is the entry \<open>get_log\<close> and \<open>retract_log\<close> resolve the number
  to, retracting it sets \<open>retracted\<close> and clears the release time; afterwards the active
  and the expired listings are those of the store without that entry, and \<open>get_log\<close>
  still returns the entry under its number, every field of the tuple as before except the
  release time, now \<open>None\<close>, and the retraction flag, now \<open>True\<close>. A sanction that
  an earlier entry with the same number and guild shadows is not reached: the call reports
  success, changes an earlier entry and leaves the sanction and all entries after it as
  they are.
\<close>

theorem retract_log_hides_but_keeps:
  "(logs file = pre @ log # post
   \<and> (\<forall>l \<in> set pre. \<not> (log_number l = number \<and> guild_id l = guild))
   \<and> log_number log = number \<and> guild_id log = guild \<longrightarrow>
   retract_log True now_ts file number guild True =
     (True, file \<lparr> logs := pre @ log \<lparr> retracted := True, release_time := None,
                                       updated_at := Some now_ts \<rparr> # post \<rparr>)
   \<and> get_active_punishments (snd (retract_log True now_ts file number guild True)) g =
       get_active_punishments (file \<lparr> logs := pre @ post \<rparr>) g
   \<and> get_expired_punishments t (snd (retract_log True now_ts file number guild True)) g =
       get_expired_punishments t (file \<lparr> logs := pre @ post \<rparr>) g
   \<and> get_log file number guild =
       Some (user_id log, rule_violation log, description log, punishment log, message_id log,
             guild_id log, release_time log, punishment_start log, retracted log, moderator_id log)
   \<and> get_log (snd (retract_log True now_ts file number guild True)) number guild =
       Some (user_id log, rule_violation log, description log, punishment log, message_id log,
             guild_id log, None, punishment_start log, True, moderator_id log))
   \<and> (logs file = pre @ log # post
        \<and> (\<exists>l \<in> set pre. log_number l = number \<and> guild_id l = guild) \<longrightarrow>
       (\<exists>pre'. retract_log True now_ts file number guild True =
                 (True, file \<lparr> logs := pre' @ log # post \<rparr>)
               \<and> length pre' = length pre))"
proof (rule conjI)
  show "logs file = pre @ log # post
   \<and> (\<forall>l \<in> set pre. \<not> (log_number l = number \<and> guild_id l = guild))
   \<and> log_number log = number \<and> guild_id log = guild \<longrightarrow>
   retract_log True now_ts file number guild True =
     (True, file \<lparr> logs := pre @ log \<lparr> retracted := True, release_time := None,
                                       updated_at := Some now_ts \<rparr> # post \<rparr>)
   \<and> get_active_punishments (snd (retract_log True now_ts file number guild True)) g =
       get_active_punishments (file \<lparr> logs := pre @ post \<rparr>) g
   \<and> get_expired_punishments t (snd (retract_log True now_ts file number guild True)) g =
       get_expired_punishments t (file \<lparr> logs := pre @ post \<rparr>) g
   \<and> get_log file number guild =
       Some (user_id log, rule_violation log, description log, punishment log, message_id log,
             guild_id log, release_time log, punishment_start log, retracted log, moderator_id log)
   \<and> get_log (snd (retract_log True now_ts file number guild True)) number guild =
       Some (user_id log, rule_violation log, description log, punishment log, message_id log,
             guild_id log, None, punishment_start log, True, moderator_id log)"
    by (rule retract_log_first_entry)
next
  show "logs file = pre @ log # post
        \<and> (\<exists>l \<in> set pre. log_number l = number \<and> guild_id l = guild) \<longrightarrow>
       (\<exists>pre'. retract_log True now_ts file number guild True =
                 (True, file \<lparr> logs := pre' @ log # post \<rparr>)
               \<and> length pre' = length pre)"
  proof
    assume a: "logs file = pre @ log # post
        \<and> (\<exists>l \<in> set pre. log_number l = number \<and> guild_id l = guild)"
    let ?P = "\<lambda>l. log_number l = number \<and> guild_id l = guild"
    let ?f = "\<lambda>log. log \<lparr> retracted := True,
                 release_time := (if True then None else release_time log),
                 updated_at := Some now_ts \<rparr>"
    from a have "\<exists>l \<in> set pre. ?P l" by simp
    from update_first_shadowed [OF this, of ?f "log # post"] obtain pre'
      where "update_first ?P ?f (pre @ log # post) = Some (pre' @ log # post)"
        and "length pre' = length pre" by blast
    with a show "\<exists>pre'. retract_log True now_ts file number guild True =
                 (True, file \<lparr> logs := pre' @ log # post \<rparr>)
               \<and> length pre' = length pre"
      by (auto simp: retract_log_def save_json_def)
  qed
qed

theorem retract_log_hides_but_keeps_witness:
  "get_active_punishments (snd (retract_log True 150 two_logs 2 7 True)) None = [(42, 7, 7300, 100)]
   \<and> get_expired_punishments 8000 (snd (retract_log True 150 two_logs 2 7 True)) None = [(42, 7, 7300)]
   \<and> get_log two_logs 2 7 =
       Some (43, section_sign # ''2'', ''spam'', ''2h'', None, 7, Some 7300, 100, False, Some 9)
   \<and> get_log (snd (retract_log True 150 two_logs 2 7 True)) 2 7 =
       Some (43, section_sign # ''2'', ''spam'', ''2h'', None, 7, None, 100, True, Some 9)"
proof -
  have split: "logs two_logs = [sample_log 1 7 42 (Some 7300)] @ sample_log 2 7 43 (Some 7300) # []
      \<and> (\<forall>l \<in> set [sample_log 1 7 42 (Some 7300)]. \<not> (log_number l = 2 \<and> guild_id l = 7))
      \<and> log_number (sample_log 2 7 43 (Some 7300)) = 2
      \<and> guild_id (sample_log 2 7 43 (Some 7300)) = 7"
    by (simp add: two_logs_def sample_log_def)
  have rest: "get_active_punishments (two_logs \<lparr> logs := [sample_log 1 7 42 (Some 7300)] @ [] \<rparr>) None
                = [(42, 7, 7300, 100)]"
    "get_expired_punishments 8000 (two_logs \<lparr> logs := [sample_log 1 7 42 (Some 7300)] @ [] \<rparr>) None
                = [(42, 7, 7300)]"
    by (simp_all add: get_active_punishments_def get_expired_punishments_def sample_log_def)
  from retract_log_hides_but_keeps
         [where now_ts = 150 and g = None and t = 8000, THEN conjunct1, THEN mp, OF split,
          THEN conjunct2] rest
  show ?thesis by (simp add: sample_log_def)
qed

section \<open>Claims about log numbers\<close>

lemma max_default_ge: "x \<in> set xs \<Longrightarrow> x \<le> max_default xs d"
  by (auto simp: max_default_def)

text \<open>
  C3, as stated, fails: \<open>create_log\<close> takes the maximum over the entries of the guild
  that are not retracted. After entry 1 is retracted and still stored under its number, the
  next entry is numbered 1 again; after entry 2, the highest, is deleted, the next entry is
  numbered 2 again.
\<close>

theorem create_log_reuses_numbers:
  "get_log (snd (retract_log True 150 one_log 1 7 True)) 1 7 \<noteq> None
   \<and> fst (create_log True 200 (snd (retract_log True 150 one_log 1 7 True))
            7 43 ''rule'' ''flood'' ''1h'' (Some 3800) None (Some 9)) = Inr 1
   \<and> get_log two_logs 2 7 \<noteq> None
   \<and> fst (create_log True 200 (snd (delete_log True two_logs 2 7))
            7 44 ''rule'' ''flood'' ''1h'' (Some 3800) None (Some 9)) = Inr 2"
  by (simp add: one_log_def two_logs_def sample_log_def retract_log_def delete_log_def
      create_log_def get_log_def save_json_def max_default_def)

text \<open>
  C3, amended: \<open>create_log\<close> appends one entry whose number is one more than the highest
  number among the entries of the guild that are not retracted (1 when there is none). The
  new number is therefore greater than, and distinct from, the number of every such entry.
  Nothing is promised about the numbers of retracted or deleted entries.
\<close>

theorem create_log_number_above_unretracted:
  "\<exists>entry.
     create_log True now_ts file guild user rule descr pun release start moderator =
       (Inr (log_number entry),
        file \<lparr> logs := logs file @ [entry],
               next_log_id := Some ((case next_log_id file of None \<Rightarrow> 1 | Some i \<Rightarrow> i) + 1) \<rparr>)
     \<and> guild_id entry = guild \<and> user_id entry = user \<and> \<not> retracted entry
     \<and> log_number entry =
         max_default (map log_number
           (filter (\<lambda>log. guild_id log = guild \<and> \<not> retracted log) (logs file))) 0 + 1
     \<and> (\<forall>log \<in> set (logs file).
           guild_id log = guild \<and> \<not> retracted log \<longrightarrow> log_number log < log_number entry)
     \<and> ((\<forall>log \<in> set (logs file). guild_id log = guild \<longrightarrow> retracted log) \<longrightarrow>
           log_number entry = 1)"
proof -
  let ?live = "filter (\<lambda>log. guild_id log = guild \<and> \<not> retracted log) (logs file)"
  let ?n = "max_default (map log_number ?live) 0 + 1"
  let ?next = "case next_log_id file of None \<Rightarrow> 1 | Some i \<Rightarrow> i"
  let ?entry = "\<lparr> entry_id = ?next, log_number = ?n, guild_id = guild,
                    user_id = user, rule_violation = rule, description = descr,
                    punishment = pun, release_time = release,
                    punishment_start = (case start of None \<Rightarrow> now_ts | Some t \<Rightarrow> t),
                    moderator_id = moderator, retracted = False, message_id = None,
                    created_at = now_ts, updated_at = None, completed_at = None \<rparr>"
  have c: "create_log True now_ts file guild user rule descr pun release start moderator =
       (Inr (log_number ?entry),
        file \<lparr> logs := logs file @ [?entry], next_log_id := Some (?next + 1) \<rparr>)"
    by (simp add: create_log_def save_json_def Let_def)
  have above: "\<forall>log \<in> set (logs file).
           guild_id log = guild \<and> \<not> retracted log \<longrightarrow> log_number log < ?n"
  proof (intro ballI impI)
    fix log assume "log \<in> set (logs file)" "guild_id log = guild \<and> \<not> retracted log"
    then have "log_number log \<in> set (map log_number ?live)" by simp
    from max_default_ge [OF this] show "log_number log < ?n" by simp
  qed
  have first: "(\<forall>log \<in> set (logs file). guild_id log = guild \<longrightarrow> retracted log) \<longrightarrow> ?n = 1"
  proof
    assume "\<forall>log \<in> set (logs file). guild_id log = guild \<longrightarrow> retracted log"
    then have "?live = []" by (auto simp: filter_empty_conv)
    then show "?n = 1" by (simp add: max_default_def)
  qed
  from c above first
  have "create_log True now_ts file guild user rule descr pun release start moderator =
       (Inr (log_number ?entry),
        file \<lparr> logs := logs file @ [?entry], next_log_id := Some (?next + 1) \<rparr>)
     \<and> guild_id ?entry = guild \<and> user_id ?entry = user \<and> \<not> retracted ?entry
     \<and> log_number ?entry = ?n
     \<and> (\<forall>log \<in> set (logs file).
           guild_id log = guild \<and> \<not> retracted log \<longrightarrow> log_number log < log_number ?entry)
     \<and> ((\<forall>log \<in> set (logs file). guild_id log = guild \<longrightarrow> retracted log) \<longrightarrow>
           log_number ?entry = 1)" by simp
  then show ?thesis by (rule exI [of _ ?entry])
qed

theorem create_log_number_above_unretracted_witness:
  "fst (create_log True 200 two_logs 7 44 ''rule'' ''flood'' ''1h'' (Some 3800) None (Some 9)) \<noteq> Inr 1
   \<and> fst (create_log True 200 two_logs 7 44 ''rule'' ''flood'' ''1h'' (Some 3800) None (Some 9)) \<noteq> Inr 2
   \<and> fst (create_log True 200 two_logs 8 44 ''rule'' ''flood'' ''1h'' (Some 3800) None (Some 9)) = Inr 1"
proof -
  from create_log_number_above_unretracted
    [of 200 two_logs 7 44 "''rule''" "''flood''" "''1h''" "Some 3800" None "Some 9"]
  obtain entry where e:
    "create_log True 200 two_logs 7 44 ''rule'' ''flood'' ''1h'' (Some 3800) None (Some 9) =
       (Inr (log_number entry),
        two_logs \<lparr> logs := logs two_logs @ [entry],
               next_log_id := Some ((case next_log_id two_logs of None \<Rightarrow> 1 | Some i \<Rightarrow> i) + 1) \<rparr>)"
    "\<forall>log \<in> set (logs two_logs).
           guild_id log = 7 \<and> \<not> retracted log \<longrightarrow> log_number log < log_number entry"
    by blast
  have "sample_log 2 7 43 (Some 7300) \<in> set (logs two_logs)"
    "guild_id (sample_log 2 7 43 (Some 7300)) = 7 \<and> \<not> retracted (sample_log 2 7 43 (Some 7300))"
    "log_number (sample_log 2 7 43 (Some 7300)) = 2"
    by (simp_all add: two_logs_def sample_log_def)
  with e(2) have gt: "2 < log_number entry" by fastforce
  from create_log_number_above_unretracted
    [of 200 two_logs 8 44 "''rule''" "''flood''" "''1h''" "Some 3800" None "Some 9"]
  obtain entry' where e':
    "create_log True 200 two_logs 8 44 ''rule'' ''flood'' ''1h'' (Some 3800) None (Some 9) =
       (Inr (log_number entry'),
        two_logs \<lparr> logs := logs two_logs @ [entry'],
               next_log_id := Some ((case next_log_id two_logs of None \<Rightarrow> 1 | Some i \<Rightarrow> i) + 1) \<rparr>)"
    "(\<forall>log \<in> set (logs two_logs). guild_id log = 8 \<longrightarrow> retracted log) \<longrightarrow> log_number entry' = 1"
    by blast
  have "\<forall>log \<in> set (logs two_logs). guild_id log = 8 \<longrightarrow> retracted log"
    by (simp add: two_logs_def sample_log_def)
  with e'(2) have "log_number entry' = 1" by simp
  with e(1) e'(1) gt show ?thesis by simp
qed

section \<open>Claims about the policy functions\<close>

lemma two_hours: "parse_time_duration ''2h'' = Inr (Some 7200)"
  by code_simp

lemma escalation_texts:
  "format_duration (Some 7200) = Inr ''2h''" "format_duration (Some 14400) = Inr ''4h''"
  "format_duration (Some 21600) = Inr ''6h''"
  by code_simp+

text \<open>
  C5: with the base text and the increment text looked up under the rule number of the
  violation (the entry \<open>default\<close> when the table has no entry for the rule or the
  violation names no rule, and \<open>2h\<close> when there is no such entry either), and with the
  prior count the number of entries of the user in the guild that are not retracted:
  an \<open>indefinite\<close> base gives \<open>indefinite\<close> whatever the count; otherwise the result is
  what \<open>format_duration\<close> gives for the sum of the base and the count times the increment,
  where two hours stand in for a base that the parser rejects or that is zero, and zero for
  an increment that the parser rejects. An exception of the parser, on a configured text of
  more than 4300 digits, leaves the function. With base and increment both \<open>2h\<close>, the
  counts 0, 1 and 2 give \<open>2h\<close>, \<open>4h\<close> and \<open>6h\<close>.
\<close>

theorem calculate_automatic_punishment_formula:
  "base_times c = Some bt \<and> per_prior_offense c = Some pp
   \<and> rule_num = (case extract_rule_number violation of None \<Rightarrow> ''default'' | Some r \<Rightarrow> r)
   \<and> base_str = get_default bt rule_num (get_default bt ''default'' ''2h'')
   \<and> per_str = get_default pp rule_num (get_default pp ''default'' ''2h'')
   \<and> prior = int (length (filter (\<lambda>log. user_id log = user \<and> guild_id log = guild \<and>
                                         \<not> retracted log) (logs file)))
   \<longrightarrow>
   (lower base_str = ''indefinite'' \<longrightarrow>
      calculate_automatic_punishment (Some c) file user guild violation = Inr ''indefinite'')
   \<and> (lower base_str \<noteq> ''indefinite'' \<and> parse_time_duration base_str = Inr base_parsed
        \<and> parse_time_duration per_str = Inr per_parsed \<longrightarrow>
      calculate_automatic_punishment (Some c) file user guild violation =
        format_duration (Some (or_default base_parsed 7200 + prior * or_default per_parsed 0)))
   \<and> (lower base_str \<noteq> ''indefinite'' \<and> parse_time_duration base_str = Inl e \<longrightarrow>
      calculate_automatic_punishment (Some c) file user guild violation = Inl e)
   \<and> (lower base_str \<noteq> ''indefinite'' \<and> parse_time_duration base_str = Inr base_parsed
        \<and> parse_time_duration per_str = Inl e \<longrightarrow>
      calculate_automatic_punishment (Some c) file user guild violation = Inl e)
   \<and> (parse_time_duration base_str = Inr (Some b) \<and> b \<noteq> 0
        \<and> parse_time_duration per_str = Inr (Some p) \<longrightarrow>
      calculate_automatic_punishment (Some c) file user guild violation =
        format_duration (Some (b + prior * p)))
   \<and> (bt rule_num = None \<longrightarrow> base_str = get_default bt ''default'' ''2h'')
   \<and> (pp rule_num = None \<longrightarrow> per_str = get_default pp ''default'' ''2h'')
   \<and> (base_str = ''2h'' \<and> per_str = ''2h'' \<longrightarrow>
        (prior = 0 \<longrightarrow>
           calculate_automatic_punishment (Some c) file user guild violation = Inr ''2h'')
      \<and> (prior = 1 \<longrightarrow>
           calculate_automatic_punishment (Some c) file user guild violation = Inr ''4h'')
      \<and> (prior = 2 \<longrightarrow>
           calculate_automatic_punishment (Some c) file user guild violation = Inr ''6h''))"
proof (intro impI)
  assume a: "base_times c = Some bt \<and> per_prior_offense c = Some pp
   \<and> rule_num = (case extract_rule_number violation of None \<Rightarrow> ''default'' | Some r \<Rightarrow> r)
   \<and> base_str = get_default bt rule_num (get_default bt ''default'' ''2h'')
   \<and> per_str = get_default pp rule_num (get_default pp ''default'' ''2h'')
   \<and> prior = int (length (filter (\<lambda>log. user_id log = user \<and> guild_id log = guild \<and>
                                         \<not> retracted log) (logs file)))"
  let ?r = "calculate_automatic_punishment (Some c) file user guild violation"
  have indef: "lower base_str = ''indefinite'' \<longrightarrow> ?r = Inr ''indefinite''"
    using a by (simp add: calculate_automatic_punishment_def Let_def)
  have fallback:
    "?r = format_duration (Some (or_default base_parsed 7200 + prior * or_default per_parsed 0))"
    if "lower base_str \<noteq> ''indefinite''" "parse_time_duration base_str = Inr base_parsed"
      "parse_time_duration per_str = Inr per_parsed" for base_parsed per_parsed
    using a that
    by (simp add: calculate_automatic_punishment_def Let_def get_punishment_count_def)
  have raise_base: "?r = Inl e"
    if "lower base_str \<noteq> ''indefinite''" "parse_time_duration base_str = Inl e" for e
    using a that by (simp add: calculate_automatic_punishment_def Let_def)
  have raise_per: "?r = Inl e"
    if "lower base_str \<noteq> ''indefinite''" "parse_time_duration base_str = Inr base_parsed"
      "parse_time_duration per_str = Inl e" for e base_parsed
    using a that by (simp add: calculate_automatic_punishment_def Let_def)
  have general: "?r = format_duration (Some (b + prior * p))"
    if "parse_time_duration base_str = Inr (Some b)" "b \<noteq> 0"
      "parse_time_duration per_str = Inr (Some p)" for b p
  proof -
    from that(1) have "lower base_str \<noteq> ''indefinite''"
      by (auto simp: parse_time_duration_def)
    from fallback [OF this that(1) that(3)] that(2) show ?thesis
      by (simp add: or_default_def)
  qed
  have fb: "bt rule_num = None \<longrightarrow> base_str = get_default bt ''default'' ''2h''"
    and fp: "pp rule_num = None \<longrightarrow> per_str = get_default pp ''default'' ''2h''"
    using a by (simp_all add: get_default_def)
  have concrete: "?r = format_duration (Some (7200 + prior * 7200))"
    if "base_str = ''2h''" "per_str = ''2h''"
    using general [of 7200 7200] that two_hours by simp
  show "(lower base_str = ''indefinite'' \<longrightarrow> ?r = Inr ''indefinite'')
   \<and> (lower base_str \<noteq> ''indefinite'' \<and> parse_time_duration base_str = Inr base_parsed
        \<and> parse_time_duration per_str = Inr per_parsed \<longrightarrow>
      ?r = format_duration (Some (or_default base_parsed 7200 + prior * or_default per_parsed 0)))
   \<and> (lower base_str \<noteq> ''indefinite'' \<and> parse_time_duration base_str = Inl e \<longrightarrow> ?r = Inl e)
   \<and> (lower base_str \<noteq> ''indefinite'' \<and> parse_time_duration base_str = Inr base_parsed
        \<and> parse_time_duration per_str = Inl e \<longrightarrow> ?r = Inl e)
   \<and> (parse_time_duration base_str = Inr (Some b) \<and> b \<noteq> 0
        \<and> parse_time_duration per_str = Inr (Some p) \<longrightarrow>
      ?r = format_duration (Some (b + prior * p)))
   \<and> (bt rule_num = None \<longrightarrow> base_str = get_default bt ''default'' ''2h'')
   \<and> (pp rule_num = None \<longrightarrow> per_str = get_default pp ''default'' ''2h'')
   \<and> (base_str = ''2h'' \<and> per_str = ''2h'' \<longrightarrow>
        (prior = 0 \<longrightarrow> ?r = Inr ''2h'') \<and> (prior = 1 \<longrightarrow> ?r = Inr ''4h'')
      \<and> (prior = 2 \<longrightarrow> ?r = Inr ''6h''))"
  proof (intro conjI impI)
    show "lower base_str = ''indefinite'' \<Longrightarrow> ?r = Inr ''indefinite''"
      using indef by simp
    show "lower base_str \<noteq> ''indefinite'' \<and> parse_time_duration base_str = Inr base_parsed
        \<and> parse_time_duration per_str = Inr per_parsed \<Longrightarrow>
      ?r = format_duration (Some (or_default base_parsed 7200 + prior * or_default per_parsed 0))"
      using fallback by simp
    show "lower base_str \<noteq> ''indefinite'' \<and> parse_time_duration base_str = Inl e \<Longrightarrow> ?r = Inl e"
      using raise_base by simp
    show "lower base_str \<noteq> ''indefinite'' \<and> parse_time_duration base_str = Inr base_parsed
        \<and> parse_time_duration per_str = Inl e \<Longrightarrow> ?r = Inl e"
      using raise_per by simp
    show "parse_time_duration base_str = Inr (Some b) \<and> b \<noteq> 0
        \<and> parse_time_duration per_str = Inr (Some p) \<Longrightarrow>
      ?r = format_duration (Some (b + prior * p))"
      using general by simp
    show "bt rule_num = None \<Longrightarrow> base_str = get_default bt ''default'' ''2h''"
      using fb by simp
    show "pp rule_num = None \<Longrightarrow> per_str = get_default pp ''default'' ''2h''"
      using fp by simp
    show "base_str = ''2h'' \<and> per_str = ''2h'' \<Longrightarrow> prior = 0 \<Longrightarrow> ?r = Inr ''2h''"
      using concrete escalation_texts by simp
    show "base_str = ''2h'' \<and> per_str = ''2h'' \<Longrightarrow> prior = 1 \<Longrightarrow> ?r = Inr ''4h''"
      using concrete escalation_texts by simp
    show "base_str = ''2h'' \<and> per_str = ''2h'' \<Longrightarrow> prior = 2 \<Longrightarrow> ?r = Inr ''6h''"
      using concrete escalation_texts by simp
  qed
qed

theorem calculate_automatic_punishment_formula_witness:
  "calculate_automatic_punishment (Some sample_config) two_logs 42 7 ''spam'' = Inr ''4h''
   \<and> calculate_automatic_punishment (Some sample_config) two_logs 42 7 (section_sign # ''5'')
       = Inr ''indefinite''"
proof -
  have no_rule: "extract_rule_number ''spam'' = None"
    and rule_5: "extract_rule_number (section_sign # ''5'') = Some ''5''"
    by code_simp+
  have low: "lower ''indefinite'' = ''indefinite''" by code_simp
  have h1: "base_times sample_config = Some [''default'' \<mapsto> ''2h'', ''5'' \<mapsto> ''indefinite'']
     \<and> per_prior_offense sample_config = Some [''default'' \<mapsto> ''2h'']
     \<and> ''default'' = (case extract_rule_number ''spam'' of None \<Rightarrow> ''default'' | Some r \<Rightarrow> r)
     \<and> ''2h'' = get_default [''default'' \<mapsto> ''2h'', ''5'' \<mapsto> ''indefinite''] ''default''
                  (get_default [''default'' \<mapsto> ''2h'', ''5'' \<mapsto> ''indefinite''] ''default'' ''2h'')
     \<and> ''2h'' = get_default [''default'' \<mapsto> ''2h''] ''default''
                  (get_default [''default'' \<mapsto> ''2h''] ''default'' ''2h'')
     \<and> 1 = int (length (filter (\<lambda>log. user_id log = 42 \<and> guild_id log = 7 \<and>
                                         \<not> retracted log) (logs two_logs)))"
    by (simp add: sample_config_def no_rule get_default_def two_logs_def sample_log_def)
  have h2: "base_times sample_config = Some [''default'' \<mapsto> ''2h'', ''5'' \<mapsto> ''indefinite'']
     \<and> per_prior_offense sample_config = Some [''default'' \<mapsto> ''2h'']
     \<and> ''5'' = (case extract_rule_number (section_sign # ''5'') of
                  None \<Rightarrow> ''default'' | Some r \<Rightarrow> r)
     \<and> ''indefinite'' = get_default [''default'' \<mapsto> ''2h'', ''5'' \<mapsto> ''indefinite''] ''5''
                  (get_default [''default'' \<mapsto> ''2h'', ''5'' \<mapsto> ''indefinite''] ''default'' ''2h'')
     \<and> ''2h'' = get_default [''default'' \<mapsto> ''2h''] ''5''
                  (get_default [''default'' \<mapsto> ''2h''] ''default'' ''2h'')
     \<and> 1 = int (length (filter (\<lambda>log. user_id log = 42 \<and> guild_id log = 7 \<and>
                                         \<not> retracted log) (logs two_logs)))"
    by (simp add: sample_config_def rule_5 get_default_def two_logs_def sample_log_def)
  note t1 = calculate_automatic_punishment_formula [THEN mp, OF h1]
  note t2 = calculate_automatic_punishment_formula [THEN mp, OF h2]
  from t1 [THEN conjunct2, THEN conjunct2, THEN conjunct2, THEN conjunct2, THEN conjunct2,
           THEN conjunct2, THEN conjunct2]
  have "calculate_automatic_punishment (Some sample_config) two_logs 42 7 ''spam'' = Inr ''4h''"
    by simp
  moreover from t2 [THEN conjunct1] low
  have "calculate_automatic_punishment (Some sample_config) two_logs 42 7 (section_sign # ''5'')
          = Inr ''indefinite''"
    by simp
  ultimately show ?thesis by simp
qed

text \<open>
  C6, as stated, fails: the direct entry of a rule is looked up first. With entries for both
  \<open>8\<close> and \<open>8_continued\<close> and one prior offence, the suggestion returned is the one of
  the entry \<open>8\<close>.
\<close>

theorem check_temp_ban_applicable_direct_entry_first:
  "get_punishment_count two_logs 42 7 = 1
   \<and> get_temp_ban_rules (Some sample_config) ''8_continued'' \<noteq> None
   \<and> map_option rule_key
        (check_temp_ban_applicable (Some sample_config) two_logs (section_sign # ''8'') 42 7)
      = Some ''8''
   \<and> map_option trigger
        (check_temp_ban_applicable (Some sample_config) two_logs (section_sign # ''8'') 42 7)
      = Some ''first_offense''"
proof -
  have "extract_rule_number (section_sign # ''8'') = Some ''8''" by code_simp
  then show ?thesis
    by (simp add: check_temp_ban_applicable_def get_temp_ban_rules_def sample_config_def
        get_punishment_count_def two_logs_def sample_log_def)
qed

text \<open>
  C6, amended: for a violation that names a rule, when the table has a direct entry for the
  rule, its suggestion is returned whatever the prior offences; when it has none, the user
  has at least one prior offence in the guild and the table has the entry of the rule with
  the suffix \<open>_continued\<close>, the continued-offence suggestion is returned.
\<close>

theorem check_temp_ban_applicable_continued:
  "extract_rule_number violation = Some rule_num \<longrightarrow>
     (get_temp_ban_rules config rule_num = Some info \<longrightarrow>
        check_temp_ban_applicable config file violation user guild =
          Some \<lparr> rule_key = rule_num,
                 suggested_description =
                   Some (case rule_description info of
                           None \<Rightarrow> [section_sign] @ rule_num @ '' violation'' | Some d \<Rightarrow> d),
                 suggested_duration =
                   Some (case rule_duration info of None \<Rightarrow> ''6mo'' | Some d \<Rightarrow> d),
                 trigger = (case rule_trigger info of None \<Rightarrow> ''first_offense'' | Some t \<Rightarrow> t),
                 prior_offenses = None \<rparr>)
     \<and> (get_temp_ban_rules config rule_num = None
          \<and> 1 \<le> get_punishment_count file user guild
          \<and> get_temp_ban_rules config (rule_num @ ''_continued'') = Some continued \<longrightarrow>
        check_temp_ban_applicable config file violation user guild =
          Some \<lparr> rule_key = rule_num @ ''_continued'',
                 suggested_description = rule_description continued,
                 suggested_duration = rule_duration continued,
                 trigger = ''continued'',
                 prior_offenses = Some (get_punishment_count file user guild) \<rparr>)"
  by (simp add: check_temp_ban_applicable_def Let_def)

theorem check_temp_ban_applicable_continued_witness:
  "check_temp_ban_applicable (Some sample_config) two_logs (section_sign # ''3'') 42 7 =
     Some \<lparr> rule_key = ''3_continued'', suggested_description = Some ''repeated spam'',
            suggested_duration = Some ''1mo'', trigger = ''continued'', prior_offenses = Some 1 \<rparr>
   \<and> check_temp_ban_applicable (Some sample_config) two_logs (section_sign # ''8'') 42 7 =
     Some \<lparr> rule_key = ''8'', suggested_description = Some ''doxxing'',
            suggested_duration = Some ''6mo'', trigger = ''first_offense'', prior_offenses = None \<rparr>"
proof -
  have r3: "extract_rule_number (section_sign # ''3'') = Some ''3''"
    and r8: "extract_rule_number (section_sign # ''8'') = Some ''8''" by code_simp+
  have count: "get_punishment_count two_logs 42 7 = 1"
    by (simp add: get_punishment_count_def two_logs_def sample_log_def)
  have c3: "get_temp_ban_rules (Some sample_config) ''3'' = None
      \<and> 1 \<le> get_punishment_count two_logs 42 7
      \<and> get_temp_ban_rules (Some sample_config) (''3'' @ ''_continued'') =
          Some \<lparr> rule_description = Some ''repeated spam'', rule_duration = Some ''1mo'',
                 rule_trigger = None \<rparr>"
    by (simp add: count get_temp_ban_rules_def sample_config_def)
  have c8: "get_temp_ban_rules (Some sample_config) ''8'' =
          Some \<lparr> rule_description = Some ''doxxing'', rule_duration = Some ''6mo'',
                 rule_trigger = None \<rparr>"
    by (simp add: get_temp_ban_rules_def sample_config_def)
  from check_temp_ban_applicable_continued [THEN mp, OF r3, THEN conjunct2, THEN mp, OF c3] count
    check_temp_ban_applicable_continued [THEN mp, OF r8, THEN conjunct1, THEN mp, OF c8]
  show ?thesis by simp
qed

section \<open>Claims about the reversal timers\<close>

lemma length_cancel_task: "length (cancel_task h ts) = length ts"
  by (simp add: cancel_task_def)

lemma cancel_task_nth:
  "i < length ts \<Longrightarrow>
   cancel_task h ts ! i =
     (if i = h \<and> task_state (ts ! h) = Pending then (ts ! h) \<lparr> task_state := Cancelled \<rparr> else ts ! i)"
  by (simp add: cancel_task_def)


text \<open>
  C1 at a concrete input: arming a role removal twice for user 42, as two uses of the
  \<open>canada\<close> command do, leaves two pending timers, and the dictionary keeps only the
  second handle, so a later cancellation stops the second timer and the first still fires.
  The same two calls for a temporary ban leave one pending timer.
\<close>

theorem schedule_role_removal_twice_two_live_timers:
  "map task_time (live_removals
      (schedule_role_removal (schedule_role_removal init_scheduler 7 42 7300) 7 42 9100) 42)
     = [7300, 9100]
   \<and> map task_time (live_removals
      (cancel_scheduled_removal
         (schedule_role_removal (schedule_role_removal init_scheduler 7 42 7300) 7 42 9100) 42) 42)
     = [7300]
   \<and> map task_time (live_unbans
      (schedule_temp_unban (schedule_temp_unban init_scheduler 7 42 7300 1) 7 42 9100 1) 42)
     = [9100]"
  by (simp add: init_scheduler_def schedule_role_removal_def schedule_temp_unban_def
      cancel_scheduled_removal_def cancel_task_def live_removals_def live_unbans_def is_unban_def)

text \<open>
  The sibling path: \<open>schedule_temp_unban\<close> cancels the task under the user's handle before
  it creates the new one. Every pending unban task is therefore the one its user's handle
  points to, and no user has two of them.
\<close>

lemma unban_handles_ok_iff:
  "unban_handles_ok sch \<longleftrightarrow>
     (\<forall>i < length (loop_tasks sch).
        is_unban (loop_tasks sch ! i) \<and> task_state (loop_tasks sch ! i) = Pending \<longrightarrow>
        scheduled_unbans sch (task_user (loop_tasks sch ! i)) = Some i)"
  by (auto simp: unban_handles_ok_def list_all_iff)

lemma unban_handles_ok_init: "unban_handles_ok init_scheduler"
  by (simp add: unban_handles_ok_def init_scheduler_def)

lemma schedule_temp_unban_keeps_handles:
  assumes "unban_handles_ok sch"
  shows "unban_handles_ok (schedule_temp_unban sch guild user unban number)"
proof -
  let ?ts = "loop_tasks sch"
  let ?tasks = "case scheduled_unbans sch user of None \<Rightarrow> ?ts | Some h \<Rightarrow> cancel_task h ?ts"
  let ?new = "\<lparr> task_kind = TempUnban number, task_guild = guild, task_user = user,
                task_time = unban, task_state = Pending \<rparr>"
  let ?sch' = "schedule_temp_unban sch guild user unban number"
  have len: "length ?tasks = length ?ts"
    by (simp add: length_cancel_task split: option.splits)
  have tasks': "loop_tasks ?sch' = ?tasks @ [?new]"
    and dict': "scheduled_unbans ?sch' = (scheduled_unbans sch) (user \<mapsto> length ?ts)"
    using len by (simp_all add: schedule_temp_unban_def Let_def)
  show ?thesis
    unfolding unban_handles_ok_iff
  proof (intro allI impI)
    fix i
    assume i: "i < length (loop_tasks ?sch')"
      and live: "is_unban (loop_tasks ?sch' ! i) \<and> task_state (loop_tasks ?sch' ! i) = Pending"
    show "scheduled_unbans ?sch' (task_user (loop_tasks ?sch' ! i)) = Some i"
    proof (cases "i = length ?ts")
      case True
      then show ?thesis using len by (simp add: tasks' dict' nth_append)
    next
      case False
      with i len have lt: "i < length ?ts" by (simp add: tasks')
      then have nth: "loop_tasks ?sch' ! i = ?tasks ! i" using len by (simp add: tasks' nth_append)
      have same: "?tasks ! i = ?ts ! i \<or> task_state (?tasks ! i) = Cancelled"
        using lt by (auto simp: cancel_task_nth split: option.splits)
      with live nth have eq: "?tasks ! i = ?ts ! i" by auto
      with live nth have "is_unban (?ts ! i) \<and> task_state (?ts ! i) = Pending" by simp
      with assms lt have handle: "scheduled_unbans sch (task_user (?ts ! i)) = Some i"
        by (simp add: unban_handles_ok_iff)
      have "task_user (?ts ! i) \<noteq> user"
      proof
        assume "task_user (?ts ! i) = user"
        with handle have "scheduled_unbans sch user = Some i" by simp
        then have "?tasks ! i = (?ts ! i) \<lparr> task_state := Cancelled \<rparr>"
          using lt live nth eq by (simp add: cancel_task_nth)
        with live nth show False by simp
      qed
      with handle nth eq lt show ?thesis by (simp add: dict')
    qed
  qed
qed

lemma one_live_unban:
  assumes "unban_handles_ok sch"
  shows "length (live_unbans sch user) \<le> 1"
proof -
  let ?ts = "loop_tasks sch"
  let ?P = "\<lambda>t. is_unban t \<and> task_user t = user \<and> task_state t = Pending"
  have "{i. i < length ?ts \<and> ?P (?ts ! i)} \<subseteq> (case scheduled_unbans sch user of
                                                None \<Rightarrow> {} | Some h \<Rightarrow> {h})"
    using assms by (auto simp: unban_handles_ok_iff split: option.splits)
  then have "card {i. i < length ?ts \<and> ?P (?ts ! i)}
               \<le> card (case scheduled_unbans sch user of None \<Rightarrow> ({} :: nat set) | Some h \<Rightarrow> {h})"
    by (intro card_mono) (auto split: option.splits)
  also have "\<dots> \<le> 1" by (simp split: option.splits)
  finally show ?thesis by (simp add: live_unbans_def length_filter_conv_card)
qed

lemma schedule_temp_unban_one_live:
  "unban_handles_ok sch \<Longrightarrow>
   length (live_unbans (schedule_temp_unban sch guild user unban number) user) = 1"
proof -
  assume ok: "unban_handles_ok sch"
  let ?sch' = "schedule_temp_unban sch guild user unban number"
  have "length (live_unbans ?sch' user) \<le> 1"
    by (rule one_live_unban [OF schedule_temp_unban_keeps_handles [OF ok]])
  moreover have "1 \<le> length (live_unbans ?sch' user)"
    by (simp add: live_unbans_def schedule_temp_unban_def Let_def is_unban_def)
  ultimately show ?thesis by simp
qed

section \<open>Claims about reduce\<close>










end
